theory Spec2Isabelle
  imports
    Complex_Main
    "HOL-Library.AList"
    "HOL-Library.Char_ord"
    "HOL-Library.List_Lexorder"
    "HOL-Library.Word"
begin

section \<open>Python values and exceptions\<close>

text \<open>
  The exceptions the modelled functions raise. A function that can raise returns
  \<open>error + 'a\<close> (\<open>Inl\<close> the exception); a method that mutates its object before raising
  returns the outcome paired with the object as it is left.
\<close>

datatype error =
    ValueError | TypeError | IndexError | KeyError | AttributeError | ZeroDivisionError
  | TTSEngineError | InitError | NonFinite

text \<open>
  The values that travel through settings and effect maps. A \<open>dict\<close> is an association
  list in insertion order with string keys. A finite float is read as the real it stands
  for, with one exception: the float \<open>-0.0\<close> is a value of its own (\<open>PNegZero\<close>), equal to
  \<open>0.0\<close> in every comparison and in arithmetic but written differently by \<open>repr\<close> and
  \<open>json.dumps\<close>; \<open>PFloat 0\<close> is \<open>0.0\<close>. Infinities and NaN are not values of the model.
\<close>

datatype pyval =
    PNone
  | PBool bool
  | PInt int
  | PFloat real
  | PNegZero
  | PStr string
  | PList "pyval list"
  | PDict "(string \<times> pyval) list"

text \<open>Truthiness, as \<open>if x:\<close> and \<open>not x\<close> read a value.\<close>

fun truthy :: "pyval \<Rightarrow> bool" where
  "truthy PNone = False"
| "truthy (PBool b) = b"
| "truthy (PInt i) = (i \<noteq> 0)"
| "truthy (PFloat r) = (r \<noteq> 0)"
| "truthy PNegZero = False"
| "truthy (PStr s) = (s \<noteq> [])"
| "truthy (PList xs) = (xs \<noteq> [])"
| "truthy (PDict kvs) = (kvs \<noteq> [])"

text \<open>\<open>d.get(k)\<close>: the value stored under \<open>k\<close>, \<open>None\<close> when the key is absent.\<close>

definition dict_get :: "(string \<times> pyval) list \<Rightarrow> string \<Rightarrow> pyval" where
  "dict_get d k = (case map_of d k of None \<Rightarrow> PNone | Some v \<Rightarrow> v)"

section \<open>The audio cache (dist/utils/audio\_cache.py)\<close>

subsection \<open>Fingerprint\<close>

text \<open>
  \<open>json.dumps(settings, sort_keys=True)\<close>. The encoder of scalars (\<open>null\<close>, booleans,
  numbers, escaped strings) belongs to the \<open>json\<close> module and is a parameter; lists are
  written in order and the items of a dictionary sorted by key, at every depth, with the
  default separators.
\<close>

fun join :: "string \<Rightarrow> string list \<Rightarrow> string" where
  "join sep [] = []"
| "join sep [x] = x"
| "join sep (x # y # ys) = x @ sep @ join sep (y # ys)"

lemma size_list_member: "x \<in> set xs \<Longrightarrow> f x < Suc (size_list f xs)"
  by (induction xs) auto

function (sequential) dumps :: "(pyval \<Rightarrow> string) \<Rightarrow> pyval \<Rightarrow> string" where
  "dumps enc (PList xs) = ''['' @ join '', '' (map (dumps enc) xs) @ '']''"
| "dumps enc (PDict kvs) =
     ''{'' @ join '', ''
        (map (\<lambda>p. enc (PStr (fst p)) @ '': '' @ dumps enc (snd p)) (sort_key fst kvs)) @ ''}''"
| "dumps enc v = enc v"
  by pat_completeness auto
termination
  apply (relation "measure (\<lambda>(enc, v). size v)")
  subgoal by simp
  subgoal for enc xs x using size_list_member [of x xs size] by simp
  subgoal for enc kvs p
    using size_list_member [of p kvs "size_prod (\<lambda>x. 0) size"]
    by (cases p) simp
  done

text \<open>
  The two library functions the fingerprint is built from: \<open>hashlib.md5(...).hexdigest()\<close>
  (composed with \<open>str.encode\<close>) and the scalar encoder of \<open>json\<close>.
\<close>

record pylib =
  md5_hexdigest :: "string \<Rightarrow> string"
  json_scalar :: "pyval \<Rightarrow> string"

definition generate_cache_key ::
  "pylib \<Rightarrow> string \<Rightarrow> string \<Rightarrow> string \<Rightarrow> (string \<times> pyval) list \<Rightarrow> string" where
  "generate_cache_key lib text eng voice settings =
     md5_hexdigest lib
       (text @ '':'' @ eng @ '':'' @ voice @ '':'' @ dumps (json_scalar lib) (PDict settings))"

text \<open>
  Equality of two values up to the order of the items of dictionaries, at every depth:
  the same keys, and under each key values that are again equal in this sense.
\<close>

function (sequential) same_value :: "pyval \<Rightarrow> pyval \<Rightarrow> bool" where
  "same_value (PList xs) (PList ys) =
     (length xs = length ys \<and> (\<forall>p \<in> set (zip xs ys). same_value (fst p) (snd p)))"
| "same_value (PDict a) (PDict b) =
     (distinct (map fst a) \<and> distinct (map fst b) \<and> fst ` set a = fst ` set b \<and>
      (\<forall>p \<in> set a. \<forall>q \<in> set b. fst p = fst q \<longrightarrow> same_value (snd p) (snd q)))"
| "same_value x y = (x = y)"
  by pat_completeness auto
termination
  apply (relation "measure (\<lambda>(x, y). size x)")
  subgoal by simp
  subgoal for xs ys p
    using size_list_member [of "fst p" xs size] by (cases p) (auto dest: set_zip_leftD)
  subgoal for a b p q
    using size_list_member [of p a "size_prod (\<lambda>x. 0) size"] by (cases p) simp
  done

subsection \<open>State\<close>

text \<open>
  An index entry, as \<open>cache_audio\<close> writes it. Timestamps are what \<open>time.time()\<close>
  returned, read as reals.
\<close>

record entry =
  created_at :: real
  last_accessed :: real
  size_bytes :: nat
  engine :: string
  voice_id :: string

type_synonym bytes = "8 word list"

text \<open>
  The cache object together with the payload files of its directory. \<open>cache_index\<close> is
  the dictionary \<open>self.cache_index\<close> in insertion order; \<open>files k\<close> is the content of
  \<open>cache_dir/k.mp3\<close>, \<open>None\<close> when that file does not exist. The persisted copy of
  the index (\<open>cache_index.json\<close>) is written by \<open>_save_index\<close> and read only by the
  constructor; none of the operations below reads it, and it is left out.
\<close>

record cache =
  max_size_bytes :: int
  max_age_seconds :: int
  cache_index :: "(string \<times> entry) list"
  files :: "string \<rightharpoonup> bytes"

text \<open>\<open>__init__\<close> on an empty directory.\<close>

definition init_cache :: "int \<Rightarrow> int \<Rightarrow> cache" where
  "init_cache max_size_mb max_age_days =
     \<lparr>max_size_bytes = max_size_mb * 1024 * 1024,
      max_age_seconds = max_age_days * 24 * 60 * 60,
      cache_index = [],
      files = Map.empty\<rparr>"

text \<open>What the file system does to the one write of \<open>cache_audio\<close>: it succeeds,
  \<open>open\<close> raises and the file is untouched, or the file is opened (and truncated) and
  the write raises after some bytes reached it.\<close>

datatype write_outcome = WriteOk | OpenFails | WriteFails nat

subsection \<open>Operations\<close>

text \<open>The size of a payload file if it exists, else 0 (the key function of line 86).\<close>

definition file_size :: "cache \<Rightarrow> string \<Rightarrow> nat" where
  "file_size c k = (case files c k of None \<Rightarrow> 0 | Some b \<Rightarrow> length b)"

definition get_cache_size :: "cache \<Rightarrow> nat" where
  "get_cache_size c = sum_list (map (file_size c) (map fst (cache_index c)))"

text \<open>
  \<open>remove_from_cache\<close>. \<open>rm_fails k\<close> says that \<open>os.remove\<close> raises for the payload
  of \<open>k\<close>; the exception is caught and the index entry deleted all the same.
\<close>

definition remove_from_cache :: "(string \<Rightarrow> bool) \<Rightarrow> cache \<Rightarrow> string \<Rightarrow> cache" where
  "remove_from_cache rm_fails c cache_key =
     (if cache_key \<in> fst ` set (cache_index c) then
        c\<lparr>files := (if files c cache_key \<noteq> None \<and> \<not> rm_fails cache_key
                      then (files c)(cache_key := None) else files c),
          cache_index := AList.delete cache_key (cache_index c)\<rparr>
      else c)"

text \<open>
  \<open>max(iterable, key=f)\<close>: the first element among those with the greatest key;
  \<open>ValueError\<close> on an empty iterable.
\<close>

fun max_by :: "('a \<Rightarrow> nat) \<Rightarrow> 'a \<Rightarrow> 'a list \<Rightarrow> 'a" where
  "max_by f best [] = best"
| "max_by f best (x # xs) = max_by f (if f best < f x then x else best) xs"

definition py_max :: "('a \<Rightarrow> nat) \<Rightarrow> 'a list \<Rightarrow> error + 'a" where
  "py_max f xs = (case xs of [] \<Rightarrow> Inl ValueError | x # ys \<Rightarrow> Inr (max_by f x ys))"

lemma max_by_member: "max_by f b xs \<in> insert b (set xs)"
  by (induction xs arbitrary: b) auto

lemma py_max_member: "py_max f xs = Inr k \<Longrightarrow> k \<in> set xs"
  using max_by_member [of f] by (auto simp: py_max_def split: list.splits)

lemma length_delete_less:
  "k \<in> fst ` set al \<Longrightarrow> length (AList.delete k al) < length al"
proof -
  assume "k \<in> fst ` set al"
  then obtain v where "(k, v) \<in> set al" by auto
  then show ?thesis
    unfolding AList.delete_eq by (rule length_filter_less) simp
qed

lemma remove_from_cache_shrinks:
  "k \<in> fst ` set (cache_index c) \<Longrightarrow>
   length (cache_index (remove_from_cache rm_fails c k)) < length (cache_index c)"
  by (simp add: remove_from_cache_def length_delete_less)

text \<open>
  \<open>_remove_largest_entries\<close>: the loop of lines 82 to 88. The exception of \<open>max\<close> on
  an index that has become empty leaves the loop with the entries already removed.
\<close>

function remove_largest_entries ::
  "(string \<Rightarrow> bool) \<Rightarrow> int \<Rightarrow> cache \<Rightarrow> (error + unit) \<times> cache" where
  "remove_largest_entries rm_fails target c =
     (if target < int (get_cache_size c) then
        (case py_max (file_size c) (map fst (cache_index c)) of
           Inl e \<Rightarrow> (Inl e, c)
         | Inr largest_key \<Rightarrow>
             remove_largest_entries rm_fails target
               (remove_from_cache rm_fails c largest_key))
      else (Inr (), c))"
  by pat_completeness auto
termination
  apply (relation "measure (\<lambda>(rm_fails, target, c). length (cache_index c))")
  subgoal by simp
  subgoal for rm_fails target c largest_key
    using py_max_member [of "file_size c" "map fst (cache_index c)" largest_key]
    by (simp add: remove_from_cache_shrinks)
  done

declare remove_largest_entries.simps [simp del]

text \<open>
  \<open>cache_audio\<close>. \<open>wo\<close> is the outcome of the payload write; \<open>t_created\<close> and
  \<open>t_accessed\<close> are the two readings of the clock at lines 178 and 179.
\<close>

definition cache_audio ::
  "pylib \<Rightarrow> (string \<Rightarrow> bool) \<Rightarrow> write_outcome \<Rightarrow> real \<Rightarrow> real \<Rightarrow> cache \<Rightarrow>
   string \<Rightarrow> string \<Rightarrow> string \<Rightarrow> (string \<times> pyval) list \<Rightarrow> bytes \<Rightarrow> (error + string) \<times> cache" where
  "cache_audio lib rm_fails wo t_created t_accessed c text eng voice settings audio_data =
     (let cache_key = generate_cache_key lib text eng voice settings;
          current_size = get_cache_size c;
          made_space =
            (if max_size_bytes c < int current_size + int (length audio_data)
             then remove_largest_entries rm_fails
                    (max_size_bytes c - int (length audio_data)) c
             else (Inr (), c))
      in case made_space of
           (Inl e, c1) \<Rightarrow> (Inl e, c1)
         | (Inr u, c1) \<Rightarrow>
             (case wo of
                OpenFails \<Rightarrow> (Inr cache_key, c1)
              | WriteFails n \<Rightarrow>
                  (Inr cache_key, c1\<lparr>files := (files c1)(cache_key \<mapsto> take n audio_data)\<rparr>)
              | WriteOk \<Rightarrow>
                  (Inr cache_key,
                   c1\<lparr>files := (files c1)(cache_key \<mapsto> audio_data),
                      cache_index :=
                        AList.update cache_key
                          \<lparr>created_at = t_created, last_accessed = t_accessed,
                           size_bytes = length audio_data, engine = eng, voice_id = voice\<rparr>
                          (cache_index c1)\<rparr>)))"

text \<open>
  \<open>get_cached_audio\<close>. \<open>t_check\<close> and \<open>t_access\<close> are the readings of the clock at
  lines 123 and 128; \<open>read_ok\<close> says that reading the payload file does not raise.
\<close>

definition get_cached_audio ::
  "pylib \<Rightarrow> (string \<Rightarrow> bool) \<Rightarrow> bool \<Rightarrow> real \<Rightarrow> real \<Rightarrow> cache \<Rightarrow>
   string \<Rightarrow> string \<Rightarrow> string \<Rightarrow> (string \<times> pyval) list \<Rightarrow> bytes option \<times> cache" where
  "get_cached_audio lib rm_fails read_ok t_check t_access c text eng voice settings =
     (let cache_key = generate_cache_key lib text eng voice settings
      in case map_of (cache_index c) cache_key of
           None \<Rightarrow> (None, c)
         | Some e \<Rightarrow>
             (case files c cache_key of
                None \<Rightarrow> (None, c\<lparr>cache_index := AList.delete cache_key (cache_index c)\<rparr>)
              | Some content \<Rightarrow>
                  if real_of_int (max_age_seconds c) < t_check - created_at e
                  then (None, remove_from_cache rm_fails c cache_key)
                  else (if read_ok then Some content else None,
                        c\<lparr>cache_index :=
                            AList.update cache_key (e\<lparr>last_accessed := t_access\<rparr>)
                              (cache_index c)\<rparr>)))"

text \<open>
  \<open>get_cache_stats\<close>. \<open>t_default\<close> and \<open>now\<close> are the readings of the clock at lines
  221 and 227.
\<close>

record cache_stats =
  total_size_bytes :: nat
  entry_count :: nat
  oldest_entry_age_seconds :: real
  stats_max_size_bytes :: int
  stats_max_age_seconds :: int

definition get_cache_stats :: "real \<Rightarrow> real \<Rightarrow> cache \<Rightarrow> cache_stats" where
  "get_cache_stats t_default now c =
     \<lparr>total_size_bytes = get_cache_size c,
      entry_count = length (cache_index c),
      oldest_entry_age_seconds =
        now - (case map (created_at \<circ> snd) (cache_index c) of
                 [] \<Rightarrow> t_default | t # ts \<Rightarrow> fold min ts t),
      stats_max_size_bytes = max_size_bytes c,
      stats_max_age_seconds = max_age_seconds c\<rparr>"

subsection \<open>Example states\<close>

text \<open>
  Concrete inputs for the examples below. The theorems hold for every \<open>pylib\<close>; the
  examples need one, and \<open>example_lib\<close> puts the identity in the place of MD5 and a
  constant in the place of the scalar encoder. \<open>fresh_cache\<close> is the cache of the test
  fixture (10 MB, one day), \<open>expired_cache\<close> holds one entry whose \<open>created_at\<close> was
  set to 0, and \<open>nearly_full_cache\<close> is a 1 MB cache after one insertion of 1000000
  bytes.
\<close>

definition example_lib :: pylib where
  "example_lib = \<lparr>md5_hexdigest = (\<lambda>s. s), json_scalar = (\<lambda>v. ''?'')\<rparr>"

definition fresh_cache :: cache where
  "fresh_cache = init_cache 10 1"

definition test_audio :: bytes where
  "test_audio = [0x74, 0x65, 0x73, 0x74]"

definition expired_cache :: cache where
  "expired_cache =
     \<lparr>max_size_bytes = 10485760, max_age_seconds = 86400,
      cache_index =
        [(generate_cache_key example_lib ''test'' ''test'' ''test'' [],
          \<lparr>created_at = 0, last_accessed = 1700000000, size_bytes = 4,
           engine = ''test'', voice_id = ''test''\<rparr>)],
      files = [generate_cache_key example_lib ''test'' ''test'' ''test'' [] \<mapsto> test_audio]\<rparr>"

definition nearly_full_cache :: cache where
  "nearly_full_cache =
     snd (cache_audio example_lib (\<lambda>k. False) WriteOk 1700000000 1700000000 (init_cache 1 7)
            ''old'' ''test'' ''test'' [] (replicate 1000000 0x61))"

section \<open>The ElevenLabs engine (dist/engines/plugins/elevenlabs\_engine.py)\<close>

text \<open>
  The engine object: the fields that \<open>__init__\<close> sets, each under its name with
  the prefix \<open>el\<close>, and \<open>_voice_cache\<close> reduced to its keys (the voice ids).
  \<open>_settings\<close> is a dictionary in insertion order.
\<close>

record elevenlabs_engine =
  el_speaking :: bool
  el_paused :: bool
  el_settings :: "(string \<times> pyval) list"
  el_voice_cache :: "string list"
  el_api_key :: "string option"

text \<open>\<open>__init__\<close>.\<close>

definition elevenlabs_init :: elevenlabs_engine where
  "elevenlabs_init =
     \<lparr>el_speaking = False, el_paused = False,
      el_settings =
        [(''voice_id'', PStr ''21m00Tcm4TlvDq8ikWAM''),
         (''stability'', PFloat 0.5),
         (''similarity_boost'', PFloat 0.75),
         (''style'', PFloat 0.0),
         (''use_speaker_boost'', PBool True),
         (''model_id'', PStr ''eleven_monolingual_v1'')],
      el_voice_cache = [],
      el_api_key = None\<rparr>"

text \<open>
  \<open>0 <= value <= 1\<close>: a boolean counts as 0 or 1, and comparing a number with
  \<open>None\<close>, a string, a list or a dictionary raises \<open>TypeError\<close>.
\<close>

fun unit_range :: "pyval \<Rightarrow> error + bool" where
  "unit_range (PBool b) = Inr True"
| "unit_range (PInt i) = Inr (0 \<le> i \<and> i \<le> 1)"
| "unit_range (PFloat r) = Inr (0 \<le> r \<and> r \<le> 1)"
| "unit_range PNegZero = Inr True"
| "unit_range v = Inl TypeError"

text \<open>
  \<open>value in self._voice_cache\<close>: the keys of the cache are strings; an unhashable value
  raises \<open>TypeError\<close>.
\<close>

fun in_voice_cache :: "pyval \<Rightarrow> string list \<Rightarrow> error + bool" where
  "in_voice_cache (PStr s) vc = Inr (s \<in> set vc)"
| "in_voice_cache (PList xs) vc = Inl TypeError"
| "in_voice_cache (PDict kvs) vc = Inl TypeError"
| "in_voice_cache v vc = Inr False"

text \<open>\<open>isinstance(value, bool)\<close>.\<close>

fun is_bool :: "pyval \<Rightarrow> bool" where
  "is_bool (PBool b) = True"
| "is_bool v = False"

text \<open>
  The three checks of lines 70 to 75 on a recognized key, in order: \<open>None\<close> when the
  value passes, otherwise the exception raised (messages are not modelled).
\<close>

definition validate :: "elevenlabs_engine \<Rightarrow> string \<Rightarrow> pyval \<Rightarrow> error option" where
  "validate st key val =
     (case (if key = ''voice_id'' then in_voice_cache val (el_voice_cache st) else Inr True) of
        Inl e \<Rightarrow> Some e
      | Inr False \<Rightarrow> Some TTSEngineError
      | Inr True \<Rightarrow>
          (case (if key \<in> set [''stability'', ''similarity_boost'', ''style'']
                 then unit_range val else Inr True) of
             Inl e \<Rightarrow> Some e
           | Inr False \<Rightarrow> Some TTSEngineError
           | Inr True \<Rightarrow>
               if key = ''use_speaker_boost'' \<and> \<not> is_bool val then Some TTSEngineError
               else None))"

text \<open>
  The loop of \<open>configure\<close> over \<open>settings.items()\<close>: an unrecognized key is skipped,
  a recognized key is validated and then stored at once, and the first exception leaves
  the loop with the settings stored so far.
\<close>

fun configure_items ::
  "elevenlabs_engine \<Rightarrow> (string \<times> pyval) list \<Rightarrow> (error + unit) \<times> elevenlabs_engine" where
  "configure_items st [] = (Inr (), st)"
| "configure_items st ((key, val) # rest) =
     (if key \<in> fst ` set (el_settings st) then
        (case validate st key val of
           Some e \<Rightarrow> (Inl e, st)
         | None \<Rightarrow> configure_items (st\<lparr>el_settings := AList.update key val (el_settings st)\<rparr>) rest)
      else configure_items st rest)"

text \<open>\<open>configure\<close>: the loop inside \<open>try\<close>; every exception is re-raised as
  \<open>TTSEngineError\<close>.\<close>

definition configure ::
  "elevenlabs_engine \<Rightarrow> (string \<times> pyval) list \<Rightarrow> (error + unit) \<times> elevenlabs_engine" where
  "configure st new_settings =
     (case configure_items st new_settings of
        (Inl e, st') \<Rightarrow> (Inl TTSEngineError, st')
      | (Inr u, st') \<Rightarrow> (Inr u, st'))"

section \<open>The engine factories\<close>

text \<open>
  An engine class, as far as the factories depend on it: its name, whether it is a
  subclass of \<open>TTSEngineInterface\<close>, and whether calling it (the constructor) raises.
\<close>

record engine_class =
  class_name :: string
  implements_interface :: bool
  init_raises :: bool

text \<open>An engine object: its identity and its class.\<close>

record engine_obj =
  obj_id :: nat
  obj_class :: engine_class

text \<open>
  \<open>engine_class()\<close>: the new object takes the next unused identity. \<open>InitError\<close> stands
  for whatever the constructor raises.
\<close>

definition construct :: "engine_class \<Rightarrow> nat \<Rightarrow> error + (engine_obj \<times> nat)" where
  "construct cls fresh =
     (if init_raises cls then Inl InitError
      else Inr (\<lparr>obj_id = fresh, obj_class = cls\<rparr>, Suc fresh))"

text \<open>The engine classes the two factories are built with.\<close>

definition PyTTSx3Engine :: engine_class where
  "PyTTSx3Engine = \<lparr>class_name = ''PyTTSx3Engine'', implements_interface = True, init_raises = False\<rparr>"

definition ElevenLabsEngine :: engine_class where
  "ElevenLabsEngine = \<lparr>class_name = ''ElevenLabsEngine'', implements_interface = True, init_raises = False\<rparr>"

definition EdgeTTSEngine :: engine_class where
  "EdgeTTSEngine = \<lparr>class_name = ''EdgeTTSEngine'', implements_interface = True, init_raises = False\<rparr>"

definition AzureTTSEngine :: engine_class where
  "AzureTTSEngine = \<lparr>class_name = ''AzureTTSEngine'', implements_interface = True, init_raises = False\<rparr>"

subsection \<open>dist/engines/tts\_factory.py\<close>

text \<open>
  \<open>_engines\<close> (name to instance) and \<open>_engine_classes\<close> (name to class), with the
  next unused object identity.
\<close>

record engine_factory =
  tf_engines :: "(string \<times> engine_obj) list"
  tf_engine_classes :: "(string \<times> engine_class) list"
  tf_next_id :: nat

text \<open>
  \<open>__init__\<close>: the built-in class, then the (name, class) pairs \<open>_load_plugins\<close>
  found, in order.
\<close>

definition engine_factory_init :: "(string \<times> engine_class) list \<Rightarrow> engine_factory" where
  "engine_factory_init plugins =
     \<lparr>tf_engines = [],
      tf_engine_classes = fold (\<lambda>(n, cls). AList.update n cls) plugins [(''pyttsx3'', PyTTSx3Engine)],
      tf_next_id = 0\<rparr>"

text \<open>
  \<open>get_engine\<close>: the memoized instance if there is one; \<open>None\<close> for a name without a
  class, and (by the \<open>except\<close> clause) when the constructor raises.
\<close>

definition get_engine :: "engine_factory \<Rightarrow> string \<Rightarrow> engine_obj option \<times> engine_factory" where
  "get_engine f engine_name =
     (case map_of (tf_engines f) engine_name of
        Some inst \<Rightarrow> (Some inst, f)
      | None \<Rightarrow>
          (case map_of (tf_engine_classes f) engine_name of
             None \<Rightarrow> (None, f)
           | Some cls \<Rightarrow>
               (case construct cls (tf_next_id f) of
                  Inl e \<Rightarrow> (None, f)
                | Inr (inst, fresh) \<Rightarrow>
                    (Some inst,
                     f\<lparr>tf_engines := AList.update engine_name inst (tf_engines f),
                       tf_next_id := fresh\<rparr>))))"

text \<open>\<open>register_engine\<close> and \<open>unregister_engine\<close>.\<close>

definition register_engine :: "engine_factory \<Rightarrow> string \<Rightarrow> engine_class \<Rightarrow> engine_factory" where
  "register_engine f engine_name cls =
     (if implements_interface cls
      then f\<lparr>tf_engine_classes := AList.update engine_name cls (tf_engine_classes f)\<rparr>
      else f)"

definition unregister_engine :: "engine_factory \<Rightarrow> string \<Rightarrow> engine_factory" where
  "unregister_engine f engine_name =
     (if engine_name \<in> fst ` set (tf_engine_classes f)
      then f\<lparr>tf_engine_classes := AList.delete engine_name (tf_engine_classes f),
             tf_engines := AList.delete engine_name (tf_engines f)\<rparr>
      else f)"

text \<open>
  A call of one of the three methods on the registry, and the registry after a sequence of
  such calls (the value \<open>get_engine\<close> returns is dropped).
\<close>

datatype factory_op =
    GetEngine string
  | RegisterEngine string engine_class
  | UnregisterEngine string

fun run_op :: "factory_op \<Rightarrow> engine_factory \<Rightarrow> engine_factory" where
  "run_op (GetEngine engine_name) f = snd (get_engine f engine_name)"
| "run_op (RegisterEngine engine_name cls) f = register_engine f engine_name cls"
| "run_op (UnregisterEngine engine_name) f = unregister_engine f engine_name"

definition run_ops :: "factory_op list \<Rightarrow> engine_factory \<Rightarrow> engine_factory" where
  "run_ops ops f = fold run_op ops f"

text \<open>Every memoized instance is stored under a registered name.\<close>

definition instances_registered :: "engine_factory \<Rightarrow> bool" where
  "instances_registered f = (fst ` set (tf_engines f) \<subseteq> fst ` set (tf_engine_classes f))"

subsection \<open>engines/factory.py\<close>

text \<open>\<open>_engines\<close> maps a name to a class here; there is no table of instances.\<close>

record plain_factory =
  pf_engines :: "(string \<times> engine_class) list"
  pf_next_id :: nat

definition plain_factory_init :: plain_factory where
  "plain_factory_init =
     \<lparr>pf_engines = [(''edge-tts'', EdgeTTSEngine), (''elevenlabs'', ElevenLabsEngine),
                    (''azure-tts'', AzureTTSEngine)],
      pf_next_id = 0\<rparr>"

text \<open>
  \<open>get_engine\<close> of \<open>engines/factory.py\<close>: \<open>ValueError\<close> for an unknown type,
  otherwise a new object on every call; a constructor's exception propagates.
\<close>

definition factory_get_engine :: "plain_factory \<Rightarrow> string \<Rightarrow> (error + engine_obj) \<times> plain_factory" where
  "factory_get_engine f engine_type =
     (case map_of (pf_engines f) engine_type of
        None \<Rightarrow> (Inl ValueError, f)
      | Some cls \<Rightarrow>
          (case construct cls (pf_next_id f) of
             Inl e \<Rightarrow> (Inl e, f)
           | Inr (inst, fresh) \<Rightarrow> (Inr inst, f\<lparr>pf_next_id := fresh\<rparr>)))"

text \<open>
  Examples: the registry of \<open>dist\<close> after it has loaded its one plugin, and a class
  whose constructor raises.
\<close>

definition dist_factory :: engine_factory where
  "dist_factory = engine_factory_init [(''elevenlabs'', ElevenLabsEngine)]"

definition BrokenEngine :: engine_class where
  "BrokenEngine = \<lparr>class_name = ''BrokenEngine'', implements_interface = True, init_raises = True\<rparr>"

section \<open>Signal processing (utils/spectral\_processor.py, utils/advanced\_audio\_processor.py)\<close>

text \<open>
  Parameters arrive as dictionary values. A value used in arithmetic must be a number (a
  boolean counts as 0 or 1); for any other value the model raises \<open>TypeError\<close> where the
  value is first used.
\<close>

fun as_number :: "pyval \<Rightarrow> real option" where
  "as_number (PBool b) = Some (if b then 1 else 0)"
| "as_number (PInt i) = Some (real_of_int i)"
| "as_number (PFloat r) = Some r"
| "as_number PNegZero = Some 0"
| "as_number v = None"

definition number_of :: "pyval \<Rightarrow> error + real" where
  "number_of v = (case as_number v of None \<Rightarrow> Inl TypeError | Some r \<Rightarrow> Inr r)"

text \<open>\<open>d.get(k, default)\<close>.\<close>

definition dict_get_default :: "(string \<times> pyval) list \<Rightarrow> string \<Rightarrow> pyval \<Rightarrow> pyval" where
  "dict_get_default d k dflt = (case map_of d k of None \<Rightarrow> dflt | Some v \<Rightarrow> v)"

subsection \<open>Harmonic enhancement\<close>

text \<open>
  The truth value of a one-dimensional numpy array of booleans, as \<open>and\<close> and \<open>if\<close>
  ask for it: that of its element when it has one, \<open>False\<close> when it is empty, and
  \<open>ValueError\<close> (ambiguous truth value) when it has more than one element.
\<close>

definition array_truth :: "bool list \<Rightarrow> error + bool" where
  "array_truth bs = (case bs of [] \<Rightarrow> Inr False | [b] \<Rightarrow> Inr b | b # c # cs \<Rightarrow> Inl ValueError)"

text \<open>
  A magnitude spectrogram is the list of its rows (frequency bins), each row the list of
  its frames. \<open>magnitude[i] > magnitude[j]\<close> and \<open>magnitude[i] > threshold\<close> compare
  rows element by element.
\<close>

definition row_greater :: "real list \<Rightarrow> real list \<Rightarrow> bool list" where
  "row_greater xs ys = map2 (\<lambda>x y. y < x) xs ys"

definition row_above :: "real list \<Rightarrow> pyval \<Rightarrow> error + bool list" where
  "row_above xs threshold =
     (case as_number threshold of
        None \<Rightarrow> Inl TypeError
      | Some t \<Rightarrow> Inr (map (\<lambda>x. t < x) xs))"

text \<open>
  The condition of lines 190 to 192, with the short circuit of \<open>and\<close>: each operand is
  a row comparison whose truth value is taken before the next operand is evaluated.
\<close>

definition is_peak :: "real list list \<Rightarrow> pyval \<Rightarrow> nat \<Rightarrow> error + bool" where
  "is_peak magnitude threshold i =
     (case array_truth (row_greater (magnitude ! i) (magnitude ! (i - 1))) of
        Inl e \<Rightarrow> Inl e
      | Inr False \<Rightarrow> Inr False
      | Inr True \<Rightarrow>
          (case array_truth (row_greater (magnitude ! i) (magnitude ! (i + 1))) of
             Inl e \<Rightarrow> Inl e
           | Inr False \<Rightarrow> Inr False
           | Inr True \<Rightarrow>
               (case row_above (magnitude ! i) threshold of
                  Inl e \<Rightarrow> Inl e
                | Inr bs \<Rightarrow> array_truth bs)))"

text \<open>\<open>_find_harmonic_peaks\<close>: the loop over \<open>range(1, magnitude.shape[0] - 1)\<close>.\<close>

fun peaks_loop :: "real list list \<Rightarrow> pyval \<Rightarrow> nat list \<Rightarrow> nat list \<Rightarrow> error + nat list" where
  "peaks_loop magnitude threshold [] peaks = Inr peaks"
| "peaks_loop magnitude threshold (i # rest) peaks =
     (case is_peak magnitude threshold i of
        Inl e \<Rightarrow> Inl e
      | Inr b \<Rightarrow> peaks_loop magnitude threshold rest (if b then peaks @ [i] else peaks))"

definition find_harmonic_peaks :: "real list list \<Rightarrow> pyval \<Rightarrow> error + nat list" where
  "find_harmonic_peaks magnitude threshold =
     peaks_loop magnitude threshold [1 ..< length magnitude - 1] []"

text \<open>\<open>magnitude_enhanced[peak] *= enhancement\<close> scales the whole row \<open>peak\<close>.\<close>

definition scale_row :: "real list \<Rightarrow> pyval \<Rightarrow> error + real list" where
  "scale_row xs enhancement =
     (case as_number enhancement of
        None \<Rightarrow> Inl TypeError
      | Some c \<Rightarrow> Inr (map (\<lambda>x. x * c) xs))"

fun enhance_rows :: "real list list \<Rightarrow> pyval \<Rightarrow> nat list \<Rightarrow> error + real list list" where
  "enhance_rows magnitude enhancement [] = Inr magnitude"
| "enhance_rows magnitude enhancement (peak # rest) =
     (case scale_row (magnitude ! peak) enhancement of
        Inl e \<Rightarrow> Inl e
      | Inr row \<Rightarrow> enhance_rows (magnitude[peak := row]) enhancement rest)"

text \<open>
  \<open>_enhance_harmonics\<close> on a complex spectrogram: \<open>np.abs\<close> is \<open>cmod\<close>, \<open>np.angle\<close>
  is \<open>Arg\<close> and \<open>np.exp(1j * phase)\<close> is \<open>cis phase\<close>.
\<close>

definition enhance_harmonics :: "complex list list \<Rightarrow> (string \<times> pyval) list \<Rightarrow> error + complex list list" where
  "enhance_harmonics D params =
     (let enhancement = dict_get_default params ''enhancement'' (PFloat 1.5);
          threshold = dict_get_default params ''threshold'' (PFloat 0.1);
          magnitude = map (map cmod) D;
          phase = map (map Arg) D
      in case find_harmonic_peaks magnitude threshold of
           Inl e \<Rightarrow> Inl e
         | Inr peaks \<Rightarrow>
             (case enhance_rows magnitude enhancement peaks of
                Inl e \<Rightarrow> Inl e
              | Inr magnitude_enhanced \<Rightarrow>
                  Inr (map2 (map2 (\<lambda>m p. of_real m * cis p)) magnitude_enhanced phase)))"

text \<open>
  A peak as the description of the stage has it, for a spectrogram with a single frame: a
  bin whose magnitude exceeds that of both neighbours and the threshold.
\<close>

definition peak_bin :: "real list list \<Rightarrow> real \<Rightarrow> nat \<Rightarrow> bool" where
  "peak_bin magnitude t i =
     (magnitude ! (i - 1) ! 0 < magnitude ! i ! 0 \<and>
      magnitude ! (i + 1) ! 0 < magnitude ! i ! 0 \<and>
      t < magnitude ! i ! 0)"

subsection \<open>The time-domain chain\<close>

text \<open>A mono signal, its samples idealised as reals.\<close>

type_synonym audio = "real list"

text \<open>Sequencing: an exception of the first step is the outcome.\<close>

definition then_do :: "error + 'a \<Rightarrow> ('a \<Rightarrow> error + 'b) \<Rightarrow> error + 'b" where
  "then_do r f = (case r of Inl e \<Rightarrow> Inl e | Inr x \<Rightarrow> f x)"

text \<open>\<open>params.get\<close> exists only on a dictionary.\<close>

fun as_dict :: "pyval \<Rightarrow> error + (string \<times> pyval) list" where
  "as_dict (PDict d) = Inr d"
| "as_dict v = Inl AttributeError"

text \<open>\<open>int(x)\<close> on a float truncates towards zero.\<close>

definition py_int :: "real \<Rightarrow> int" where
  "py_int x = (if 0 \<le> x then \<lfloor>x\<rfloor> else \<lceil>x\<rceil>)"

text \<open>
  The numeric primitives of scipy and librosa, and the stages built directly on them that
  no claim looks into, are parameters: \<open>scipy.signal.filtfilt\<close>, \<open>_reduce_noise\<close>,
  \<open>_apply_reverb\<close>, \<open>_apply_echo\<close>, \<open>_shift_pitch\<close>, \<open>_stretch_time\<close> and
  \<open>_adjust_stereo_width\<close>.
\<close>

record dsp_lib =
  filtfilt :: "real list \<Rightarrow> real list \<Rightarrow> audio \<Rightarrow> error + audio"
  reduce_noise :: "audio \<Rightarrow> error + audio"
  apply_reverb :: "audio \<Rightarrow> pyval \<Rightarrow> error + audio"
  apply_echo :: "audio \<Rightarrow> pyval \<Rightarrow> error + audio"
  shift_pitch :: "audio \<Rightarrow> pyval \<Rightarrow> error + audio"
  stretch_time :: "audio \<Rightarrow> pyval \<Rightarrow> error + audio"
  adjust_stereo_width :: "audio \<Rightarrow> pyval \<Rightarrow> error + audio"

text \<open>The processor object (fields under the prefix \<open>ap\<close>).\<close>

record audio_processor =
  ap_sample_rate :: real
  ap_channels :: int
  ap_effects :: "(string \<times> pyval) list"

text \<open>The ten default bands of \<open>_apply_eq\<close>.\<close>

definition default_bands :: pyval where
  "default_bands =
     PList (map (\<lambda>f. PDict [(''freq'', PInt f), (''gain'', PInt 0), (''q'', PFloat 1.0)])
              [60, 170, 310, 600, 1000, 3000, 6000, 12000, 14000, 16000])"

text \<open>
  \<open>_design_peaking_filter\<close>. Where numpy would continue with an infinity or a NaN (a
  division of a numpy float by zero) the model stops with \<open>NonFinite\<close>: the reals have no
  such values.
\<close>

definition design_peaking_filter ::
  "pyval \<Rightarrow> pyval \<Rightarrow> pyval \<Rightarrow> real \<Rightarrow> error + (real list \<times> real list)" where
  "design_peaking_filter freq gain q fs =
     then_do (number_of freq) (\<lambda>freq.
     if fs = 0 then Inl ZeroDivisionError
     else
       then_do (number_of q) (\<lambda>q.
       if q = 0 then Inl NonFinite
       else
         then_do (number_of gain) (\<lambda>gain.
         let w0 = 2 * pi * freq / fs;
             alpha = sin w0 / (2 * q);
             A = sqrt (10 powr (gain / 20));
             b0 = 1 + alpha * A; b1 = - 2 * cos w0; b2 = 1 - alpha * A;
             a0 = 1 + alpha / A; a1 = - 2 * cos w0; a2 = 1 - alpha / A
         in Inr ([b0, b1, b2], [a0, a1, a2]))))"

text \<open>\<open>band['freq']\<close>, \<open>band['gain']\<close>, \<open>band['q']\<close>.\<close>

definition band_item :: "pyval \<Rightarrow> string \<Rightarrow> error + pyval" where
  "band_item band k =
     (case band of
        PDict d \<Rightarrow> (case map_of d k of None \<Rightarrow> Inl KeyError | Some v \<Rightarrow> Inr v)
      | _ \<Rightarrow> Inl TypeError)"

text \<open>
  \<open>_apply_eq\<close>: one zero-phase filter per band, each on the output of the one before.
  \<open>bands\<close> is iterated; iterating a non-empty string or dictionary yields strings, which
  cannot be subscripted by \<open>'freq'\<close>.
\<close>

definition eq_band :: "dsp_lib \<Rightarrow> audio_processor \<Rightarrow> audio \<Rightarrow> pyval \<Rightarrow> error + audio" where
  "eq_band lib ap audio band =
     then_do (band_item band ''freq'') (\<lambda>freq.
     then_do (band_item band ''gain'') (\<lambda>gain.
     then_do (band_item band ''q'') (\<lambda>q.
     then_do (design_peaking_filter freq gain q (ap_sample_rate ap)) (\<lambda>(b, a).
     filtfilt lib b a audio))))"

fun eq_bands :: "dsp_lib \<Rightarrow> audio_processor \<Rightarrow> audio \<Rightarrow> pyval list \<Rightarrow> error + audio" where
  "eq_bands lib ap audio [] = Inr audio"
| "eq_bands lib ap audio (band # rest) =
     then_do (eq_band lib ap audio band) (\<lambda>audio'. eq_bands lib ap audio' rest)"

definition apply_eq :: "dsp_lib \<Rightarrow> audio_processor \<Rightarrow> audio \<Rightarrow> pyval \<Rightarrow> error + audio" where
  "apply_eq lib ap audio eq_params =
     then_do (as_dict eq_params) (\<lambda>d.
       case dict_get_default d ''bands'' default_bands of
         PList bands \<Rightarrow> eq_bands lib ap audio bands
       | PDict kvs \<Rightarrow> (if kvs = [] then Inr audio else Inl TypeError)
       | PStr s \<Rightarrow> (if s = [] then Inr audio else Inl TypeError)
       | _ \<Rightarrow> Inl TypeError)"

text \<open>\<open>_smooth_gain_reduction\<close>.\<close>

fun smooth_loop :: "real \<Rightarrow> real list \<Rightarrow> int \<Rightarrow> int \<Rightarrow> error + real list" where
  "smooth_loop current_gain [] attack release = Inr []"
| "smooth_loop current_gain (g # rest) attack release =
     (let divisor = (if current_gain < g then attack else release)
      in if divisor = 0 then Inl NonFinite
         else
           let current_gain' = current_gain + (g - current_gain) / real_of_int divisor
           in then_do (smooth_loop current_gain' rest attack release)
                (\<lambda>smoothed. Inr (current_gain' # smoothed)))"

definition smooth_gain_reduction :: "real list \<Rightarrow> int \<Rightarrow> int \<Rightarrow> error + real list" where
  "smooth_gain_reduction gain_reduction attack release =
     (case gain_reduction of
        [] \<Rightarrow> Inl IndexError
      | g # rest \<Rightarrow> smooth_loop g gain_reduction attack release)"

text \<open>\<open>_apply_compression\<close>.\<close>

definition apply_compression :: "audio_processor \<Rightarrow> audio \<Rightarrow> pyval \<Rightarrow> error + audio" where
  "apply_compression ap audio params =
     then_do (as_dict params) (\<lambda>d.
     let threshold = dict_get_default d ''threshold'' (PInt (- 20));
         ratio = dict_get_default d ''ratio'' (PFloat 4.0);
         attack = dict_get_default d ''attack'' (PFloat 0.003);
         release = dict_get_default d ''release'' (PFloat 0.25);
         audio_db = map (\<lambda>x. 20 * log 10 (\<bar>x\<bar> + 1 / 10 ^ 10)) audio
     in
     then_do (number_of threshold) (\<lambda>thr.
     then_do (number_of ratio) (\<lambda>rat.
     if rat = 0 then Inl ZeroDivisionError
     else
       let gain_reduction =
             map (\<lambda>db. if thr < db then (db - thr) * (1 - 1 / rat) else 0) audio_db
       in
       then_do (number_of attack) (\<lambda>att.
       then_do (number_of release) (\<lambda>rel.
       then_do (smooth_gain_reduction gain_reduction
                  (py_int (att * ap_sample_rate ap)) (py_int (rel * ap_sample_rate ap)))
         (\<lambda>smoothed. Inr (map2 (\<lambda>x g. x * 10 powr (- g / 20)) audio smoothed)))))))"

text \<open>
  One stage of \<open>_apply_effects\<close>: \<open>if effects.get(name): audio = f(audio, effects[name])\<close>.
\<close>

definition stage ::
  "(string \<times> pyval) list \<Rightarrow> string \<Rightarrow> (audio \<Rightarrow> pyval \<Rightarrow> error + audio) \<Rightarrow> audio \<Rightarrow> error + audio" where
  "stage effects name f audio =
     (if truthy (dict_get effects name) then f audio (dict_get effects name) else Inr audio)"

text \<open>\<open>_apply_effects\<close>: the eight stages in the order of lines 56 to 78.\<close>

definition apply_effects ::
  "dsp_lib \<Rightarrow> audio_processor \<Rightarrow> audio \<Rightarrow> (string \<times> pyval) list \<Rightarrow> error + audio" where
  "apply_effects lib ap audio effects =
     then_do (stage effects ''noise_reduction'' (\<lambda>a p. reduce_noise lib a) audio) (\<lambda>audio.
     then_do (stage effects ''equalization'' (apply_eq lib ap) audio) (\<lambda>audio.
     then_do (stage effects ''compression'' (apply_compression ap) audio) (\<lambda>audio.
     then_do (stage effects ''reverb'' (apply_reverb lib) audio) (\<lambda>audio.
     then_do (stage effects ''echo'' (apply_echo lib) audio) (\<lambda>audio.
     then_do (stage effects ''pitch_shift'' (shift_pitch lib) audio) (\<lambda>audio.
     then_do (stage effects ''time_stretch'' (stretch_time lib) audio) (\<lambda>audio.
     stage effects ''stereo_width'' (adjust_stereo_width lib) audio)))))))"

text \<open>
  Examples: a library whose primitives return their input, the processor at 44100 Hz,
  an effects dictionary whose equalizer has no bands and whose compression entry is
  the empty dictionary, and one that lists compression before equalization.
\<close>

definition example_dsp :: dsp_lib where
  "example_dsp =
     \<lparr>filtfilt = (\<lambda>b a x. Inr x), reduce_noise = Inr,
      apply_reverb = (\<lambda>x p. Inr x), apply_echo = (\<lambda>x p. Inr x),
      shift_pitch = (\<lambda>x p. Inr x), stretch_time = (\<lambda>x p. Inr x),
      adjust_stereo_width = (\<lambda>x p. Inr x)\<rparr>"

definition example_processor :: audio_processor where
  "example_processor = \<lparr>ap_sample_rate = 44100, ap_channels = 2, ap_effects = []\<rparr>"

definition empty_compression_effects :: "(string \<times> pyval) list" where
  "empty_compression_effects =
     [(''equalization'', PDict [(''bands'', PList [])]), (''compression'', PDict [])]"

definition reversed_effects :: "(string \<times> pyval) list" where
  "reversed_effects =
     [(''compression'', PDict [(''ratio'', PFloat 4)]),
      (''equalization'', PDict [(''bands'', PList [])])]"

section \<open>Equality of settings and their JSON text\<close>

text \<open>
  Python's \<open>==\<close> on the values above, by which two settings dictionaries are equal as
  maps: numbers (booleans, integers, floats) are equal when they are numerically equal, so
  \<open>True == 1 == 1.0\<close> and \<open>0.0 == -0.0\<close>; lists are equal elementwise; dictionaries are
  equal when they have the same keys and equal values under each key, whatever the order
  of insertion; values of different kinds are not equal.
\<close>

function (sequential) py_eq :: "pyval \<Rightarrow> pyval \<Rightarrow> bool" where
  "py_eq (PList xs) (PList ys) =
     (length xs = length ys \<and> (\<forall>p \<in> set (zip xs ys). py_eq (fst p) (snd p)))"
| "py_eq (PDict a) (PDict b) =
     (fst ` set a = fst ` set b \<and>
      (\<forall>p \<in> set a. \<forall>q \<in> set b. fst p = fst q \<longrightarrow> py_eq (snd p) (snd q)))"
| "py_eq (PStr s) (PStr t) = (s = t)"
| "py_eq PNone PNone = True"
| "py_eq x y = (as_number x \<noteq> None \<and> as_number x = as_number y)"
  by pat_completeness auto
termination
  apply (relation "measure (\<lambda>(x, y). size x)")
  subgoal by simp
  subgoal for xs ys p
    using size_list_member [of "fst p" xs size] by (cases p) (auto dest: set_zip_leftD)
  subgoal for a b p q
    using size_list_member [of p a "size_prod (\<lambda>x. 0) size"] by (cases p) simp
  done

text \<open>
  What \<open>json.dumps\<close> writes for the scalars of the examples: \<open>null\<close>, \<open>true\<close>,
  \<open>false\<close>, an integer in decimal, a float with an integral value below \<open>10^16\<close> as that
  integer followed by \<open>.0\<close>, \<open>-0.0\<close>, and a string without characters that need an
  escape between double quotes. No other value occurs in the examples; it is written
  \<open>?\<close>.
\<close>

fun decimal :: "nat \<Rightarrow> string" where
  "decimal n =
     (if n < 10 then [''0123456789'' ! n]
      else decimal (n div 10) @ [''0123456789'' ! (n mod 10)])"

declare decimal.simps [simp del]

definition json_int :: "int \<Rightarrow> string" where
  "json_int i = (if i < 0 then ''-'' @ decimal (nat (- i)) else decimal (nat i))"

fun json_scalar_example :: "pyval \<Rightarrow> string" where
  "json_scalar_example PNone = ''null''"
| "json_scalar_example (PBool b) = (if b then ''true'' else ''false'')"
| "json_scalar_example (PInt i) = json_int i"
| "json_scalar_example (PFloat r) =
     (if r = of_int \<lfloor>r\<rfloor> \<and> \<bar>r\<bar> < 10 ^ 16 then json_int \<lfloor>r\<rfloor> @ ''.0'' else ''?'')"
| "json_scalar_example PNegZero = ''-0.0''"
| "json_scalar_example (PStr s) = [CHR 0x22] @ s @ [CHR 0x22]"
| "json_scalar_example v = ''?''"

text \<open>
  The library of the fingerprint examples: the scalar encoder above, and the identity in
  the place of MD5, so that a key is the text that the code hashes.
\<close>

definition json_lib :: pylib where
  "json_lib = \<lparr>md5_hexdigest = (\<lambda>s. s), json_scalar = json_scalar_example\<rparr>"

section \<open>Properties\<close>

subsection \<open>Fingerprint\<close>

lemma sort_key_fst_unique:
  fixes s s' :: "(string \<times> 'v) list"
  assumes "distinct (map fst s)" and "distinct (map fst s')" and "map_of s = map_of s'"
  shows "sort_key fst s = sort_key fst s'"
proof -
  have sets: "set s = set s'"
    using assms by (simp add: map_of_inject_set)
  have inj: "inj_on fst (set (sort_key fst s) \<union> set (sort_key fst s'))"
    using assms(1) sets by (simp add: distinct_map)
  show ?thesis
  proof (rule map_sorted_distinct_set_unique [OF inj])
    show "sorted (map fst (sort_key fst s))" by simp
    show "sorted (map fst (sort_key fst s'))" by simp
    show "distinct (map fst (sort_key fst s))" using assms(1) by (simp add: distinct_map)
    show "distinct (map fst (sort_key fst s'))" using assms(2) by (simp add: distinct_map)
    show "set (sort_key fst s) = set (sort_key fst s')" using sets by simp
  qed
qed

text \<open>
  C2 (amended). The cache key is a function of (text, engine, voice id, settings) alone,
  and two settings dictionaries that hold identical values under the same keys (values of
  the same type and the same value, \<open>-0.0\<close> being another value than \<open>0.0\<close>), whatever
  the order in which the keys were inserted, give the same key.
\<close>

theorem generate_cache_key_insertion_order:
  assumes "distinct (map fst s)" and "distinct (map fst s')" and "map_of s = map_of s'"
  shows "generate_cache_key lib text eng voice s = generate_cache_key lib text eng voice s'"
  using sort_key_fst_unique [OF assms] by (simp add: generate_cache_key_def)

theorem generate_cache_key_insertion_order_witness:
  "distinct (map fst [(''rate'', PFloat 1), (''pitch'', PInt 2)]) \<and>
   distinct (map fst [(''pitch'', PInt 2), (''rate'', PFloat 1)]) \<and>
   map_of [(''rate'', PFloat 1), (''pitch'', PInt 2)] =
     map_of [(''pitch'', PInt 2), (''rate'', PFloat 1)] \<and>
   generate_cache_key \<lparr>md5_hexdigest = (\<lambda>s. s), json_scalar = (\<lambda>v. ''x'')\<rparr>
       ''Hello'' ''test_engine'' ''test_voice'' [(''rate'', PFloat 1), (''pitch'', PInt 2)] =
   generate_cache_key \<lparr>md5_hexdigest = (\<lambda>s. s), json_scalar = (\<lambda>v. ''x'')\<rparr>
       ''Hello'' ''test_engine'' ''test_voice'' [(''pitch'', PInt 2), (''rate'', PFloat 1)]"
proof -
  have d1: "distinct (map fst [(''rate'', PFloat 1), (''pitch'', PInt 2)])" by simp
  have d2: "distinct (map fst [(''pitch'', PInt 2), (''rate'', PFloat 1)])" by simp
  have m: "map_of [(''rate'', PFloat 1), (''pitch'', PInt 2)] =
           map_of [(''pitch'', PInt 2), (''rate'', PFloat 1)]"
    by (rule ext) simp
  show ?thesis
    using d1 d2 m generate_cache_key_insertion_order [OF d1 d2 m] by blast
qed

text \<open>
  Equality as maps is not enough. The key is a hash of the JSON text of the settings, and
  values that Python holds equal are written differently: \<open>1\<close>, \<open>1.0\<close> and \<open>true\<close>,
  \<open>0.0\<close> and \<open>-0.0\<close>. The three pairs of dictionaries below are equal as maps, and the
  texts that are hashed differ.
\<close>

theorem generate_cache_key_insertion_order_counterexample:
  "py_eq (PDict [(''rate'', PInt 1)]) (PDict [(''rate'', PFloat 1)]) \<and>
   generate_cache_key json_lib ''Hello'' ''test_engine'' ''test_voice'' [(''rate'', PInt 1)] \<noteq>
   generate_cache_key json_lib ''Hello'' ''test_engine'' ''test_voice'' [(''rate'', PFloat 1)] \<and>
   py_eq (PDict [(''boost'', PBool True)]) (PDict [(''boost'', PInt 1)]) \<and>
   generate_cache_key json_lib ''Hello'' ''test_engine'' ''test_voice'' [(''boost'', PBool True)] \<noteq>
   generate_cache_key json_lib ''Hello'' ''test_engine'' ''test_voice'' [(''boost'', PInt 1)] \<and>
   py_eq (PDict [(''pitch'', PFloat 0)]) (PDict [(''pitch'', PNegZero)]) \<and>
   generate_cache_key json_lib ''Hello'' ''test_engine'' ''test_voice'' [(''pitch'', PFloat 0)] \<noteq>
   generate_cache_key json_lib ''Hello'' ''test_engine'' ''test_voice'' [(''pitch'', PNegZero)]"
  by (simp add: generate_cache_key_def json_lib_def json_int_def decimal.simps)

text \<open>The texts of the first pair, as \<open>_generate_cache_key\<close> builds them.\<close>

lemma generate_cache_key_text_examples:
  "generate_cache_key json_lib ''Hello'' ''test_engine'' ''test_voice'' [(''rate'', PInt 1)] =
     ''Hello:test_engine:test_voice:{'' @ [CHR 0x22] @ ''rate'' @ [CHR 0x22] @ '': 1}''"
  "generate_cache_key json_lib ''Hello'' ''test_engine'' ''test_voice'' [(''rate'', PFloat 1)] =
     ''Hello:test_engine:test_voice:{'' @ [CHR 0x22] @ ''rate'' @ [CHR 0x22] @ '': 1.0}''"
  by (simp_all add: generate_cache_key_def json_lib_def json_int_def decimal.simps)

text \<open>
  The same holds when dictionaries nested inside the settings differ in the order of their
  items: \<open>sort_keys\<close> sorts at every depth.
\<close>

lemma sort_key_fst_keys_unique:
  fixes a b :: "(string \<times> 'v) list"
  assumes "distinct (map fst a)" and "distinct (map fst b)" and "fst ` set a = fst ` set b"
  shows "map fst (sort_key fst a) = map fst (sort_key fst b)"
proof (rule sorted_distinct_set_unique)
  show "sorted (map fst (sort_key fst a))" "sorted (map fst (sort_key fst b))" by simp_all
  show "distinct (map fst (sort_key fst a))" using assms(1) by (simp add: distinct_map)
  show "distinct (map fst (sort_key fst b))" using assms(2) by (simp add: distinct_map)
  show "set (map fst (sort_key fst a)) = set (map fst (sort_key fst b))" using assms(3) by simp
qed

lemma dumps_same_value: "same_value x y \<Longrightarrow> dumps enc x = dumps enc y"
proof (induction x y rule: same_value.induct)
  case (1 xs ys)
  have len: "length xs = length ys" using "1.prems" by simp
  have "map (dumps enc) xs = map (dumps enc) ys"
  proof (rule nth_equalityI)
    show "length (map (dumps enc) xs) = length (map (dumps enc) ys)" using len by simp
  next
    fix i assume "i < length (map (dumps enc) xs)"
    then have i: "i < length xs" "i < length ys" using len by simp_all
    then have m: "(xs ! i, ys ! i) \<in> set (zip xs ys)"
      by (auto simp: set_zip)
    with "1.prems" have "same_value (xs ! i) (ys ! i)" by auto
    with "1.IH" [OF m] have "dumps enc (xs ! i) = dumps enc (ys ! i)" by simp
    with i show "map (dumps enc) xs ! i = map (dumps enc) ys ! i" by simp
  qed
  then show ?case by simp
next
  case (2 a b)
  let ?r = "\<lambda>p. enc (PStr (fst p)) @ '': '' @ dumps enc (snd p)"
  have da: "distinct (map fst a)" and db: "distinct (map fst b)"
    and dom: "fst ` set a = fst ` set b"
    and vals: "\<And>p q. p \<in> set a \<Longrightarrow> q \<in> set b \<Longrightarrow> fst p = fst q \<Longrightarrow> same_value (snd p) (snd q)"
    using "2.prems" by auto
  have keys: "map fst (sort_key fst a) = map fst (sort_key fst b)"
    by (rule sort_key_fst_keys_unique [OF da db dom])
  then have len: "length (sort_key fst a) = length (sort_key fst b)"
    by (metis length_map)
  have "map ?r (sort_key fst a) = map ?r (sort_key fst b)"
  proof (rule nth_equalityI)
    show "length (map ?r (sort_key fst a)) = length (map ?r (sort_key fst b))"
      using len by simp
  next
    fix i assume "i < length (map ?r (sort_key fst a))"
    then have i: "i < length (sort_key fst a)" "i < length (sort_key fst b)" using len by simp_all
    have pa: "sort_key fst a ! i \<in> set a" using i(1) by (metis nth_mem set_sort)
    have qb: "sort_key fst b ! i \<in> set b" using i(2) by (metis nth_mem set_sort)
    have k: "fst (sort_key fst a ! i) = fst (sort_key fst b ! i)"
      using keys i by (metis nth_map)
    from "2.IH" [OF pa qb k] vals [OF pa qb k]
    have "dumps enc (snd (sort_key fst a ! i)) = dumps enc (snd (sort_key fst b ! i))" by simp
    with k i show "map ?r (sort_key fst a) ! i = map ?r (sort_key fst b) ! i" by simp
  qed
  then show ?case by simp
qed simp_all

lemma generate_cache_key_same_value:
  "same_value (PDict s) (PDict s') \<Longrightarrow>
   generate_cache_key lib text eng voice s = generate_cache_key lib text eng voice s'"
  using dumps_same_value [of "PDict s" "PDict s'" "json_scalar lib"]
  by (simp add: generate_cache_key_def)

lemma generate_cache_key_nested_example:
  "generate_cache_key lib text eng voice
     [(''a'', PDict [(''x'', PInt 1), (''y'', PList [PNone])]), (''b'', PFloat 2)] =
   generate_cache_key lib text eng voice
     [(''b'', PFloat 2), (''a'', PDict [(''y'', PList [PNone]), (''x'', PInt 1)])]"
  by (rule generate_cache_key_same_value) (simp add: insert_commute)

subsection \<open>The eviction loop\<close>

lemma delete_not_in: "k \<notin> fst ` set (AList.delete k al)"
  by (simp add: AList.delete_eq image_iff) 

lemma py_max_nonempty: "xs \<noteq> [] \<Longrightarrow> \<exists>k. py_max f xs = Inr k"
  by (cases xs) (simp_all add: py_max_def)

lemma get_cache_size_pos_nonempty: "0 < get_cache_size c \<Longrightarrow> cache_index c \<noteq> []"
  by (auto simp: get_cache_size_def)

lemma remove_largest_entries_returns:
  "0 \<le> target \<Longrightarrow> fst (remove_largest_entries rm_fails target c) = Inr ()"
proof (induction rm_fails target c rule: remove_largest_entries.induct)
  case (1 rm_fails target c)
  show ?case
  proof (cases "target < int (get_cache_size c)")
    case False
    then show ?thesis by (simp add: remove_largest_entries.simps)
  next
    case True
    with "1.prems" have "cache_index c \<noteq> []"
      using get_cache_size_pos_nonempty [of c] by simp
    then obtain k where k: "py_max (file_size c) (map fst (cache_index c)) = Inr k"
      using py_max_nonempty [of "map fst (cache_index c)"] by auto
    show ?thesis
      using "1.IH" [OF True k "1.prems"] True k
      by (subst remove_largest_entries.simps) simp
  qed
qed

lemma remove_largest_entries_raises:
  "target < 0 \<Longrightarrow>
   fst (remove_largest_entries rm_fails target c) = Inl ValueError \<and>
   cache_index (snd (remove_largest_entries rm_fails target c)) = []"
proof (induction rm_fails target c rule: remove_largest_entries.induct)
  case (1 rm_fails target c)
  have lt: "target < int (get_cache_size c)" using "1.prems" by simp
  show ?case
  proof (cases "py_max (file_size c) (map fst (cache_index c))")
    case (Inl e)
    then have "cache_index c = []" "e = ValueError"
      by (auto simp: py_max_def split: list.splits)
    with Inl lt show ?thesis
      by (subst (1 2) remove_largest_entries.simps) simp
  next
    case (Inr k)
    show ?thesis
      using "1.IH" [OF lt Inr "1.prems"] lt Inr
      by (subst (1 2) remove_largest_entries.simps) simp
  qed
qed

lemma remove_largest_entries_size:
  "remove_largest_entries rm_fails target c = (Inr u, c') \<Longrightarrow> int (get_cache_size c') \<le> target"
proof (induction rm_fails target c rule: remove_largest_entries.induct)
  case (1 rm_fails target c)
  show ?case
  proof (cases "target < int (get_cache_size c)")
    case False
    with "1.prems" show ?thesis by (simp add: remove_largest_entries.simps)
  next
    case True
    show ?thesis
    proof (cases "py_max (file_size c) (map fst (cache_index c))")
      case (Inl e)
      with True "1.prems" show ?thesis by (simp add: remove_largest_entries.simps)
    next
      case (Inr k)
      with True "1.prems" have
        "remove_largest_entries rm_fails target (remove_from_cache rm_fails c k) = (Inr u, c')"
        by (simp add: remove_largest_entries.simps)
      then show ?thesis by (rule "1.IH" [OF True Inr])
    qed
  qed
qed

lemma remove_from_cache_frame:
  "max_size_bytes (remove_from_cache rm_fails c k) = max_size_bytes c"
  "max_age_seconds (remove_from_cache rm_fails c k) = max_age_seconds c"
  "set (cache_index (remove_from_cache rm_fails c k)) \<subseteq> set (cache_index c)"
  by (auto simp: remove_from_cache_def AList.delete_eq)

lemma remove_largest_entries_frame:
  "max_size_bytes (snd (remove_largest_entries rm_fails target c)) = max_size_bytes c \<and>
   max_age_seconds (snd (remove_largest_entries rm_fails target c)) = max_age_seconds c \<and>
   set (cache_index (snd (remove_largest_entries rm_fails target c))) \<subseteq> set (cache_index c)"
proof (induction rm_fails target c rule: remove_largest_entries.induct)
  case (1 rm_fails target c)
  show ?case
  proof (cases "target < int (get_cache_size c)")
    case False
    then show ?thesis by (simp add: remove_largest_entries.simps)
  next
    case True
    show ?thesis
    proof (cases "py_max (file_size c) (map fst (cache_index c))")
      case (Inl e)
      with True show ?thesis by (simp add: remove_largest_entries.simps)
    next
      case (Inr k)
      have eq: "remove_largest_entries rm_fails target c =
                remove_largest_entries rm_fails target (remove_from_cache rm_fails c k)"
        using True Inr by (subst remove_largest_entries.simps) simp
      show ?thesis
        using "1.IH" [OF True Inr] remove_from_cache_frame [of rm_fails c k]
        unfolding eq by auto
    qed
  qed
qed

lemma remove_from_cache_distinct:
  "distinct (map fst (cache_index c)) \<Longrightarrow>
   distinct (map fst (cache_index (remove_from_cache rm_fails c k)))"
  by (simp add: remove_from_cache_def distinct_delete)

lemma remove_largest_entries_distinct:
  "distinct (map fst (cache_index c)) \<Longrightarrow>
   distinct (map fst (cache_index (snd (remove_largest_entries rm_fails target c))))"
proof (induction rm_fails target c rule: remove_largest_entries.induct)
  case (1 rm_fails target c)
  show ?case
  proof (cases "target < int (get_cache_size c)")
    case False
    with "1.prems" show ?thesis by (simp add: remove_largest_entries.simps)
  next
    case True
    show ?thesis
    proof (cases "py_max (file_size c) (map fst (cache_index c))")
      case (Inl e)
      with True "1.prems" show ?thesis by (simp add: remove_largest_entries.simps)
    next
      case (Inr k)
      have eq: "remove_largest_entries rm_fails target c =
                remove_largest_entries rm_fails target (remove_from_cache rm_fails c k)"
        using True Inr by (subst remove_largest_entries.simps) simp
      show ?thesis
        unfolding eq using "1.IH" [OF True Inr] remove_from_cache_distinct [OF "1.prems"] by simp
    qed
  qed
qed

lemma made_space_cases:
  fixes rm_fails :: "string \<Rightarrow> bool"
  assumes "int (length audio_data) \<le> max_size_bytes c"
  defines "ms \<equiv> (if max_size_bytes c < int (get_cache_size c) + int (length audio_data)
             then remove_largest_entries rm_fails (max_size_bytes c - int (length audio_data)) c
             else (Inr (), c))"
  shows "fst ms = Inr ()" and "max_age_seconds (snd ms) = max_age_seconds c"
    and "max_size_bytes (snd ms) = max_size_bytes c"
    and "set (cache_index (snd ms)) \<subseteq> set (cache_index c)"
    and "int (get_cache_size (snd ms)) + int (length audio_data) \<le> max_size_bytes c"
proof -
  have t: "0 \<le> max_size_bytes c - int (length audio_data)" using assms(1) by simp
  show "fst ms = Inr ()"
    using remove_largest_entries_returns [OF t] by (simp add: ms_def)
  show "max_age_seconds (snd ms) = max_age_seconds c"
    "max_size_bytes (snd ms) = max_size_bytes c"
    "set (cache_index (snd ms)) \<subseteq> set (cache_index c)"
    using remove_largest_entries_frame [of rm_fails "max_size_bytes c - int (length audio_data)" c]
    by (simp_all add: ms_def)
  show "int (get_cache_size (snd ms)) + int (length audio_data) \<le> max_size_bytes c"
  proof (cases "max_size_bytes c < int (get_cache_size c) + int (length audio_data)")
    case False
    then show ?thesis by (simp add: ms_def)
  next
    case True
    obtain r c' where rc: "remove_largest_entries rm_fails (max_size_bytes c - int (length audio_data)) c = (r, c')"
      by (cases "remove_largest_entries rm_fails (max_size_bytes c - int (length audio_data)) c")
    with remove_largest_entries_returns [OF t, of rm_fails c] have "r = Inr ()" by simp
    with rc have "remove_largest_entries rm_fails (max_size_bytes c - int (length audio_data)) c = (Inr (), c')"
      by simp
    from remove_largest_entries_size [OF this] rc True
    show ?thesis by (simp add: ms_def)
  qed
qed

lemma made_space_oversized:
  fixes rm_fails :: "string \<Rightarrow> bool"
  assumes "max_size_bytes c < int (length audio_data)"
  defines "ms \<equiv> (if max_size_bytes c < int (get_cache_size c) + int (length audio_data)
             then remove_largest_entries rm_fails (max_size_bytes c - int (length audio_data)) c
             else (Inr (), c))"
  shows "fst ms = Inl ValueError \<and> cache_index (snd ms) = []"
proof -
  have t: "max_size_bytes c - int (length audio_data) < 0" using assms(1) by simp
  have gt: "max_size_bytes c < int (get_cache_size c) + int (length audio_data)"
    using assms(1) by simp
  show ?thesis
    using remove_largest_entries_raises [OF t, of rm_fails c] gt by (simp add: ms_def)
qed

subsection \<open>Round trip\<close>

text \<open>
  C1 (amended). For a payload no larger than \<open>max_size_bytes\<close> whose write succeeds,
  \<open>cache_audio\<close> returns the key, and a \<open>get_cached_audio\<close> for the same text, engine,
  voice id and settings that checks the age before it exceeds \<open>max_age_seconds\<close> and can
  read the payload file returns exactly the bytes that were cached.
\<close>

theorem cache_then_get_roundtrip:
  assumes "int (length audio_data) \<le> max_size_bytes c"
      and "t_check - t_created \<le> real_of_int (max_age_seconds c)"
  shows "fst (cache_audio lib rm_fails WriteOk t_created t_accessed c text eng voice settings audio_data)
           = Inr (generate_cache_key lib text eng voice settings) \<and>
         fst (get_cached_audio lib rm_fails' True t_check t_access
                (snd (cache_audio lib rm_fails WriteOk t_created t_accessed c text eng voice settings
                        audio_data))
                text eng voice settings) = Some audio_data"
proof -
  define ms where "ms = (if max_size_bytes c < int (get_cache_size c) + int (length audio_data)
             then remove_largest_entries rm_fails (max_size_bytes c - int (length audio_data)) c
             else (Inr (), c))"
  have f: "fst ms = Inr ()" and a: "max_age_seconds (snd ms) = max_age_seconds c"
    using made_space_cases [OF assms(1), of rm_fails] by (simp_all add: ms_def)
  obtain c1 where ms: "ms = (Inr (), c1)" using f by (cases ms) auto
  have a1: "max_age_seconds c1 = max_age_seconds c" using a ms by simp
  show ?thesis
    using ms a1 assms(2)
    by (simp add: cache_audio_def get_cached_audio_def Let_def ms_def [symmetric] update_conv')
qed

theorem cache_then_get_roundtrip_witness:
  "int (length test_audio) \<le> max_size_bytes fresh_cache \<and>
   (1700000001::real) - 1700000000 \<le> real_of_int (max_age_seconds fresh_cache) \<and>
   fst (get_cached_audio example_lib (\<lambda>k. False) True 1700000001 1700000001
          (snd (cache_audio example_lib (\<lambda>k. False) WriteOk 1700000000 1700000000 fresh_cache
                  ''Hello, world!'' ''test_engine'' ''test_voice''
                  [(''rate'', PFloat 1), (''pitch'', PFloat 1)] test_audio))
          ''Hello, world!'' ''test_engine'' ''test_voice''
          [(''rate'', PFloat 1), (''pitch'', PFloat 1)]) = Some test_audio"
proof -
  have h1: "int (length test_audio) \<le> max_size_bytes fresh_cache"
    by (simp add: test_audio_def fresh_cache_def init_cache_def)
  have h2: "(1700000001::real) - 1700000000 \<le> real_of_int (max_age_seconds fresh_cache)"
    by (simp add: fresh_cache_def init_cache_def)
  show ?thesis
    using cache_then_get_roundtrip [OF h1 h2] h1 h2 by blast
qed

text \<open>
  As stated for every call the round trip fails: when the payload write raises,
  \<open>cache_audio\<close> returns the key without an index entry and the lookup misses; and
  for a payload larger than \<open>max_size_bytes\<close>, \<open>cache_audio\<close> does not return a key.
\<close>

theorem cache_then_get_roundtrip_counterexample:
  "fst (get_cached_audio example_lib (\<lambda>k. False) True 1700000001 1700000001
          (snd (cache_audio example_lib (\<lambda>k. False) OpenFails 1700000000 1700000000 fresh_cache
                  ''Hello, world!'' ''test_engine'' ''test_voice''
                  [(''rate'', PFloat 1), (''pitch'', PFloat 1)] test_audio))
          ''Hello, world!'' ''test_engine'' ''test_voice''
          [(''rate'', PFloat 1), (''pitch'', PFloat 1)]) = None \<and>
   fst (cache_audio example_lib (\<lambda>k. False) WriteOk 1700000000 1700000000 fresh_cache
          ''large'' ''test'' ''test'' [] (replicate 10485761 0x78)) = Inl ValueError"
  by (simp add: cache_audio_def get_cached_audio_def fresh_cache_def init_cache_def
        get_cache_size_def test_audio_def remove_largest_entries.simps py_max_def)

subsection \<open>Expiration\<close>

text \<open>
  C4. For an index entry whose age \<open>now - created_at\<close> exceeds \<open>max_age_seconds\<close>,
  \<open>get_cached_audio\<close> on the matching text, engine, voice id and settings returns
  \<open>None\<close> and removes the entry from the index, whether or not the payload file
  exists, can be deleted or can be read.
\<close>

theorem get_cached_audio_expired:
  assumes "map_of (cache_index c) (generate_cache_key lib text eng voice settings) = Some e"
      and "real_of_int (max_age_seconds c) < now - created_at e"
  shows "fst (get_cached_audio lib rm_fails read_ok now t_access c text eng voice settings) = None \<and>
         cache_index (snd (get_cached_audio lib rm_fails read_ok now t_access c text eng voice settings))
           = AList.delete (generate_cache_key lib text eng voice settings) (cache_index c) \<and>
         generate_cache_key lib text eng voice settings \<notin>
           fst ` set (cache_index
             (snd (get_cached_audio lib rm_fails read_ok now t_access c text eng voice settings)))"
proof -
  have "generate_cache_key lib text eng voice settings \<in> fst ` set (cache_index c)"
    using map_of_SomeD [OF assms(1)] by force
  then show ?thesis
    using assms delete_not_in [of "generate_cache_key lib text eng voice settings" "cache_index c"]
    by (cases "files c (generate_cache_key lib text eng voice settings)")
       (simp_all add: get_cached_audio_def remove_from_cache_def Let_def)
qed

theorem get_cached_audio_expired_witness:
  "map_of (cache_index expired_cache) (generate_cache_key example_lib ''test'' ''test'' ''test'' []) =
     Some \<lparr>created_at = 0, last_accessed = 1700000000, size_bytes = 4,
           engine = ''test'', voice_id = ''test''\<rparr> \<and>
   real_of_int (max_age_seconds expired_cache) < 1700000000 - 0 \<and>
   fst (get_cached_audio example_lib (\<lambda>k. False) True 1700000000 1700000000 expired_cache
          ''test'' ''test'' ''test'' []) = None \<and>
   cache_index (snd (get_cached_audio example_lib (\<lambda>k. False) True 1700000000 1700000000
          expired_cache ''test'' ''test'' ''test'' [])) = []"
proof -
  have h1: "map_of (cache_index expired_cache)
              (generate_cache_key example_lib ''test'' ''test'' ''test'' []) =
            Some \<lparr>created_at = 0, last_accessed = 1700000000, size_bytes = 4,
                  engine = ''test'', voice_id = ''test''\<rparr>"
    by (simp add: expired_cache_def)
  have h2: "real_of_int (max_age_seconds expired_cache) < 1700000000 -
              created_at \<lparr>created_at = 0, last_accessed = 1700000000, size_bytes = 4,
                  engine = ''test'', voice_id = ''test''\<rparr>"
    by (simp add: expired_cache_def)
  have idx: "AList.delete (generate_cache_key example_lib ''test'' ''test'' ''test'' [])
               (cache_index expired_cache) = []"
    by (simp add: expired_cache_def)
  show ?thesis
    using get_cached_audio_expired [OF h1 h2, of "\<lambda>k. False" True 1700000000] h1 h2 idx
    by simp
qed

subsection \<open>Failed payload write\<close>

text \<open>
  C5 (amended). When the payload write fails, \<open>cache_audio\<close> adds no entry to the index
  and changes none: every entry of the index afterwards is an entry of the index before.
  Entries evicted to make room before the write stay evicted; when no room had to be
  made, the index is unchanged.
\<close>

theorem cache_audio_failed_write_adds_no_entry:
  assumes "wo \<noteq> WriteOk"
  shows "set (cache_index (snd (cache_audio lib rm_fails wo t_created t_accessed c text eng voice
                                  settings audio_data))) \<subseteq> set (cache_index c) \<and>
         (int (get_cache_size c) + int (length audio_data) \<le> max_size_bytes c \<longrightarrow>
          cache_index (snd (cache_audio lib rm_fails wo t_created t_accessed c text eng voice
                              settings audio_data)) = cache_index c)"
proof -
  define ms where "ms = (if max_size_bytes c < int (get_cache_size c) + int (length audio_data)
             then remove_largest_entries rm_fails (max_size_bytes c - int (length audio_data)) c
             else (Inr (), c))"
  have sub: "set (cache_index (snd ms)) \<subseteq> set (cache_index c)"
    using remove_largest_entries_frame [of rm_fails "max_size_bytes c - int (length audio_data)" c]
    by (simp add: ms_def)
  have same: "int (get_cache_size c) + int (length audio_data) \<le> max_size_bytes c \<Longrightarrow> ms = (Inr (), c)"
    by (simp add: ms_def)
  obtain r c1 where ms: "ms = (r, c1)" by (cases ms)
  have idx: "cache_index (snd (cache_audio lib rm_fails wo t_created t_accessed c text eng voice
                                  settings audio_data)) = cache_index c1"
    using assms ms
    by (cases r; cases wo) (simp_all add: cache_audio_def Let_def ms_def [symmetric])
  show ?thesis
    unfolding idx using sub same ms by auto
qed

theorem cache_audio_failed_write_adds_no_entry_witness:
  "OpenFails \<noteq> WriteOk \<and>
   set (cache_index (snd (cache_audio example_lib (\<lambda>k. False) OpenFails 1700000001 1700000001
                       nearly_full_cache ''new'' ''test'' ''test'' [] (replicate 100000 0x62))))
     \<subseteq> set (cache_index nearly_full_cache) \<and>
   int (get_cache_size fresh_cache) + int (length test_audio) \<le> max_size_bytes fresh_cache \<and>
   cache_index (snd (cache_audio example_lib (\<lambda>k. False) OpenFails 1700000001 1700000001
                       fresh_cache ''new'' ''test'' ''test'' [] test_audio))
     = cache_index fresh_cache"
proof -
  have h: "OpenFails \<noteq> WriteOk" by simp
  have s: "int (get_cache_size fresh_cache) + int (length test_audio) \<le> max_size_bytes fresh_cache"
    by (simp add: fresh_cache_def init_cache_def get_cache_size_def test_audio_def)
  show ?thesis
    using cache_audio_failed_write_adds_no_entry [OF h, of example_lib "\<lambda>k. False" 1700000001 1700000001
            nearly_full_cache "''new''" "''test''" "''test''" "[]" "replicate 100000 0x62"]
          cache_audio_failed_write_adds_no_entry [OF h, of example_lib "\<lambda>k. False" 1700000001 1700000001
            fresh_cache "''new''" "''test''" "''test''" "[]" test_audio]
          h s
    by blast
qed

text \<open>
  The index does change on a failed write when room was made first: the eviction of
  lines 164 to 166 runs before the write is attempted.
\<close>

theorem cache_audio_failed_write_counterexample:
  "cache_index (snd (cache_audio example_lib (\<lambda>k. False) OpenFails 1700000001 1700000001
                       nearly_full_cache ''new'' ''test'' ''test'' [] (replicate 100000 0x62)))
     \<noteq> cache_index nearly_full_cache"
  by (simp add: nearly_full_cache_def cache_audio_def init_cache_def get_cache_size_def
        generate_cache_key_def example_lib_def remove_largest_entries.simps py_max_def
        file_size_def remove_from_cache_def Let_def)

subsection \<open>Size bound\<close>

text \<open>
  C3. The claim is that \<open>cache_audio\<close> returns with the total size within
  \<open>max_size_bytes\<close> also for a payload larger than \<open>max_size_bytes\<close>. For every such
  payload the eviction loop is entered with a negative target, removes every entry and
  then calls \<open>max\<close> on the empty index: \<open>cache_audio\<close> raises \<open>ValueError\<close> and leaves
  an empty index.
\<close>

theorem cache_audio_oversized_raises:
  assumes "max_size_bytes c < int (length audio_data)"
  shows "fst (cache_audio lib rm_fails wo t_created t_accessed c text eng voice settings audio_data)
           = Inl ValueError \<and>
         cache_index (snd (cache_audio lib rm_fails wo t_created t_accessed c text eng voice settings
                             audio_data)) = []"
proof -
  define ms where "ms = (if max_size_bytes c < int (get_cache_size c) + int (length audio_data)
             then remove_largest_entries rm_fails (max_size_bytes c - int (length audio_data)) c
             else (Inr (), c))"
  obtain r c1 where ms: "ms = (r, c1)" by (cases ms)
  with made_space_oversized [OF assms, of rm_fails] have "r = Inl ValueError" "cache_index c1 = []"
    by (simp_all add: ms_def)
  with ms show ?thesis
    by (simp add: cache_audio_def Let_def ms_def [symmetric])
qed

theorem cache_audio_oversized_raises_witness:
  "max_size_bytes fresh_cache < int (length (replicate 10485761 (0x78 :: 8 word))) \<and>
   fst (cache_audio example_lib (\<lambda>k. False) WriteOk 1700000000 1700000000 fresh_cache
          ''large'' ''test'' ''test'' [] (replicate 10485761 0x78)) = Inl ValueError"
proof -
  have h: "max_size_bytes fresh_cache < int (length (replicate 10485761 (0x78 :: 8 word)))"
    by (simp add: fresh_cache_def init_cache_def)
  show ?thesis
    using cache_audio_oversized_raises [OF h] h by blast
qed

lemma sum_list_override_absent:
  "k \<notin> set ks \<Longrightarrow>
   sum_list (map (\<lambda>k'. if k' = k then x else f k') ks) = sum_list (map f ks)"
  by (induction ks) auto

lemma sum_list_override:
  "distinct ks \<Longrightarrow>
   sum_list (map (\<lambda>k'. if k' = k then x else f k') ks) \<le> sum_list (map f ks) + (x::nat)"
proof (induction ks)
  case Nil
  then show ?case by simp
next
  case (Cons a ks)
  show ?case
  proof (cases "a = k")
    case True
    with Cons.prems have "k \<notin> set ks" by simp
    from sum_list_override_absent [OF this, of x f] True show ?thesis by simp
  next
    case False
    with Cons show ?thesis by simp
  qed
qed

lemma get_cache_size_write:
  assumes "distinct (map fst (cache_index c1))"
  shows "get_cache_size (c1\<lparr>files := (files c1)(k \<mapsto> d)\<rparr>) \<le> get_cache_size c1 + length d"
proof -
  have fs: "file_size (c1\<lparr>files := (files c1)(k \<mapsto> d)\<rparr>) =
            (\<lambda>k'. if k' = k then length d else file_size c1 k')"
    by (rule ext) (simp add: file_size_def)
  show ?thesis
    using sum_list_override [OF assms, of k "length d" "file_size c1"]
    by (simp add: get_cache_size_def fs)
qed

lemma get_cache_size_write_update:
  assumes "distinct (map fst (cache_index c1))"
  shows "get_cache_size (c1\<lparr>files := (files c1)(k \<mapsto> d),
                            cache_index := AList.update k e (cache_index c1)\<rparr>)
         \<le> get_cache_size c1 + length d"
proof -
  have fs: "file_size (c1\<lparr>files := (files c1)(k \<mapsto> d),
                           cache_index := AList.update k e (cache_index c1)\<rparr>) =
            (\<lambda>k'. if k' = k then length d else file_size c1 k')"
    by (rule ext) (simp add: file_size_def)
  show ?thesis
  proof (cases "k \<in> set (map fst (cache_index c1))")
    case True
    then show ?thesis
      using sum_list_override [OF assms, of k "length d" "file_size c1"]
      by (simp add: get_cache_size_def fs update_keys)
  next
    case False
    from sum_list_override_absent [OF this, of "length d" "file_size c1"] False
    show ?thesis
      by (simp add: get_cache_size_def fs update_keys)
  qed
qed

text \<open>
  Whenever \<open>cache_audio\<close> does return, the total size that \<open>get_cache_stats\<close> reports
  afterwards is within \<open>max_size_bytes\<close>.
\<close>

lemma cache_audio_size_bound:
  assumes "distinct (map fst (cache_index c))"
      and "fst (cache_audio lib rm_fails wo t_created t_accessed c text eng voice settings audio_data)
             = Inr k"
  shows "int (get_cache_size (snd (cache_audio lib rm_fails wo t_created t_accessed c text eng voice
                                     settings audio_data))) \<le> max_size_bytes c"
proof -
  have fits: "int (length audio_data) \<le> max_size_bytes c"
  proof (rule ccontr)
    assume "\<not> int (length audio_data) \<le> max_size_bytes c"
    then have "max_size_bytes c < int (length audio_data)" by simp
    from made_space_oversized [OF this, of rm_fails] assms(2) show False
      by (cases "if max_size_bytes c < int (get_cache_size c) + int (length audio_data)
             then remove_largest_entries rm_fails (max_size_bytes c - int (length audio_data)) c
             else (Inr (), c)")
         (simp add: cache_audio_def Let_def)
  qed
  define ms where "ms = (if max_size_bytes c < int (get_cache_size c) + int (length audio_data)
             then remove_largest_entries rm_fails (max_size_bytes c - int (length audio_data)) c
             else (Inr (), c))"
  have f: "fst ms = Inr ()"
    and b: "int (get_cache_size (snd ms)) + int (length audio_data) \<le> max_size_bytes c"
    using made_space_cases [OF fits, of rm_fails] by (simp_all add: ms_def)
  have d: "distinct (map fst (cache_index (snd ms)))"
    using remove_largest_entries_distinct [OF assms(1)] assms(1) by (simp add: ms_def)
  obtain c1 where ms: "ms = (Inr (), c1)" using f by (cases ms) auto
  have d1: "distinct (map fst (cache_index c1))" using d ms by simp
  have b1: "int (get_cache_size c1) + int (length audio_data) \<le> max_size_bytes c" using b ms by simp
  show ?thesis
  proof (cases wo)
    case WriteOk
    have "get_cache_size
            (c1\<lparr>files := (files c1)(generate_cache_key lib text eng voice settings \<mapsto> audio_data),
               cache_index :=
                 AList.update (generate_cache_key lib text eng voice settings)
                   \<lparr>created_at = t_created, last_accessed = t_accessed,
                    size_bytes = length audio_data, engine = eng, voice_id = voice\<rparr>
                   (cache_index c1)\<rparr>)
          \<le> get_cache_size c1 + length audio_data"
      by (rule get_cache_size_write_update [OF d1])
    with WriteOk show ?thesis
      using ms b1 by (simp add: cache_audio_def Let_def ms_def [symmetric])
  next
    case OpenFails
    then show ?thesis
      using ms b1 by (simp add: cache_audio_def Let_def ms_def [symmetric])
  next
    case (WriteFails n)
    have "get_cache_size (c1\<lparr>files := (files c1)(generate_cache_key lib text eng voice settings \<mapsto> take n audio_data)\<rparr>)
          \<le> get_cache_size c1 + length audio_data"
      using get_cache_size_write [OF d1, where k = "generate_cache_key lib text eng voice settings" and d = "take n audio_data"]
      by simp
    with WriteFails show ?thesis
      using ms b1 by (simp add: cache_audio_def Let_def ms_def [symmetric])
  qed
qed

text \<open>
  With a non-negative \<open>max_size_bytes\<close> the bound holds after the call however it ends:
  when \<open>cache_audio\<close> raises, it has emptied the index.
\<close>

lemma cache_audio_size_bound_any_outcome:
  assumes "distinct (map fst (cache_index c))" and "0 \<le> max_size_bytes c"
  shows "int (get_cache_size (snd (cache_audio lib rm_fails wo t_created t_accessed c text eng voice
                                     settings audio_data))) \<le> max_size_bytes c"
proof (cases "fst (cache_audio lib rm_fails wo t_created t_accessed c text eng voice settings audio_data)")
  case (Inr k)
  then show ?thesis by (rule cache_audio_size_bound [OF assms(1)])
next
  case (Inl e)
  have big: "max_size_bytes c < int (length audio_data)"
  proof (rule ccontr)
    assume "\<not> max_size_bytes c < int (length audio_data)"
    then have fits: "int (length audio_data) \<le> max_size_bytes c" by simp
    obtain r c1 where ms: "(if max_size_bytes c < int (get_cache_size c) + int (length audio_data)
             then remove_largest_entries rm_fails (max_size_bytes c - int (length audio_data)) c
             else (Inr (), c)) = (r, c1)"
      by (cases "if max_size_bytes c < int (get_cache_size c) + int (length audio_data)
             then remove_largest_entries rm_fails (max_size_bytes c - int (length audio_data)) c
             else (Inr (), c)")
    with made_space_cases(1) [OF fits, of rm_fails] have "r = Inr ()" by simp
    with ms Inl show False
      by (cases wo) (simp_all add: cache_audio_def Let_def)
  qed
  define ms where "ms = (if max_size_bytes c < int (get_cache_size c) + int (length audio_data)
             then remove_largest_entries rm_fails (max_size_bytes c - int (length audio_data)) c
             else (Inr (), c))"
  obtain r c1 where ms: "ms = (r, c1)" by (cases ms)
  with made_space_oversized [OF big, of rm_fails] have "r = Inl ValueError" "cache_index c1 = []"
    by (simp_all add: ms_def)
  with ms have "cache_index (snd (cache_audio lib rm_fails wo t_created t_accessed c text eng voice
                                     settings audio_data)) = []"
    by (simp add: cache_audio_def Let_def ms_def [symmetric])
  then show ?thesis using assms(2) by (simp add: get_cache_size_def)
qed

lemma cache_audio_stats_bound:
  assumes "distinct (map fst (cache_index c))"
      and "fst (cache_audio lib rm_fails wo t_created t_accessed c text eng voice settings audio_data)
             = Inr k"
  shows "int (total_size_bytes (get_cache_stats t_default now
           (snd (cache_audio lib rm_fails wo t_created t_accessed c text eng voice settings
                   audio_data)))) \<le> max_size_bytes c"
  using cache_audio_size_bound [OF assms] by (simp add: get_cache_stats_def)

subsection \<open>Engine configuration\<close>

lemma configure_items_keys:
  "map fst (el_settings (snd (configure_items st new))) = map fst (el_settings st)"
proof (induction new arbitrary: st)
  case Nil
  then show ?case by simp
next
  case (Cons p new)
  obtain k v where p: "p = (k, v)" by (cases p)
  show ?case
    using Cons.IH [of "st\<lparr>el_settings := AList.update k v (el_settings st)\<rparr>"] Cons.IH [of st]
    by (auto simp: p update_keys split: option.splits)
qed

text \<open>\<open>configure\<close> never adds or removes a settings key, whatever its outcome.\<close>

lemma configure_keys:
  "map fst (el_settings (snd (configure st new))) = map fst (el_settings st)"
  using configure_items_keys [of st new]
  by (cases "configure_items st new") (auto simp: configure_def split: sum.splits)

lemma bounded_key_validate:
  assumes "key \<in> {''stability'', ''similarity_boost'', ''style''}" and "unit_range val \<noteq> Inr True"
  shows "validate st key val \<noteq> None"
proof -
  have nv: "key \<noteq> ''voice_id''" using assms(1) by auto
  show ?thesis
  proof (cases "unit_range val")
    case (Inl e)
    with nv assms(1) show ?thesis by (auto simp: validate_def)
  next
    case (Inr b)
    with assms(2) have "b = False" by simp
    with Inr nv assms(1) show ?thesis by (auto simp: validate_def)
  qed
qed

lemma configure_items_rejects:
  assumes "(key, val) \<in> set new" and "key \<in> {''stability'', ''similarity_boost'', ''style''}"
      and "key \<in> fst ` set (el_settings st)" and "unit_range val \<noteq> Inr True"
  shows "\<exists>e. fst (configure_items st new) = Inl e"
  using assms(1,3)
proof (induction new arbitrary: st)
  case Nil
  then show ?case by simp
next
  case (Cons p new)
  obtain k v where p: "p = (k, v)" by (cases p)
  show ?case
  proof (cases "p = (key, val)")
    case True
    from bounded_key_validate [OF assms(2,4), of st]
    obtain e where "validate st key val = Some e" by auto
    with True Cons.prems(2) show ?thesis by simp
  next
    case False
    with Cons.prems(1) have mem: "(key, val) \<in> set new" by simp
    have rec: "key \<in> fst ` set (el_settings (st\<lparr>el_settings := AList.update k v (el_settings st)\<rparr>))"
      using Cons.prems(2) by (simp add: dom_update)
    show ?thesis
    proof (cases "k \<in> fst ` set (el_settings st)")
      case False
      with Cons.IH [OF mem Cons.prems(2)] p show ?thesis by simp
    next
      case True
      show ?thesis
      proof (cases "validate st k v")
        case None
        with True Cons.IH [OF mem rec] p show ?thesis by simp
      next
        case (Some e)
        with True p show ?thesis by simp
      qed
    qed
  qed
qed

lemma configure_items_keeps_key:
  assumes "distinct (map fst new)" and "(key, val) \<in> set new"
      and "key \<in> {''stability'', ''similarity_boost'', ''style''}"
      and "key \<in> fst ` set (el_settings st)" and "unit_range val \<noteq> Inr True"
  shows "map_of (el_settings (snd (configure_items st new))) key = map_of (el_settings st) key"
  using assms(1,2,4)
proof (induction new arbitrary: st)
  case Nil
  then show ?case by simp
next
  case (Cons p new)
  obtain k v where p: "p = (k, v)" by (cases p)
  show ?case
  proof (cases "p = (key, val)")
    case True
    from bounded_key_validate [OF assms(3,5), of st]
    obtain e where "validate st key val = Some e" by auto
    with True Cons.prems(3) show ?thesis by simp
  next
    case False
    with Cons.prems(2) have mem: "(key, val) \<in> set new" by simp
    then have "key \<in> fst ` set new" by force
    with Cons.prems(1) p have ne: "k \<noteq> key" by auto
    have d: "distinct (map fst new)" using Cons.prems(1) by simp
    have rec: "key \<in> fst ` set (el_settings (st\<lparr>el_settings := AList.update k v (el_settings st)\<rparr>))"
      using Cons.prems(3) by (simp add: dom_update)
    have same: "map_of (el_settings (st\<lparr>el_settings := AList.update k v (el_settings st)\<rparr>)) key
                = map_of (el_settings st) key"
      using ne by (simp add: update_conv')
    show ?thesis
    proof (cases "k \<in> fst ` set (el_settings st)")
      case False
      with Cons.IH [OF d mem Cons.prems(3)] p show ?thesis by simp
    next
      case True
      show ?thesis
      proof (cases "validate st k v")
        case None
        with True Cons.IH [OF d mem rec] same p show ?thesis by simp
      next
        case (Some e)
        with True p show ?thesis by simp
      qed
    qed
  qed
qed

lemma configure_items_first_recognized:
  assumes "distinct (map fst new)" and "(key, val) \<in> set new"
      and "key \<in> {''stability'', ''similarity_boost'', ''style''}"
      and "key \<in> fst ` set (el_settings st)" and "unit_range val \<noteq> Inr True"
      and "\<forall>p \<in> set (takeWhile (\<lambda>p. fst p \<noteq> key) new). fst p \<notin> fst ` set (el_settings st)"
  shows "snd (configure_items st new) = st"
  using assms(1,2,6)
proof (induction new)
  case Nil
  then show ?case by simp
next
  case (Cons p new)
  obtain k v where p: "p = (k, v)" by (cases p)
  show ?case
  proof (cases "k = key")
    case True
    have "v = val"
    proof (rule ccontr)
      assume "v \<noteq> val"
      with Cons.prems(2) p True have "(key, val) \<in> set new" by simp
      then have "key \<in> fst ` set new" by force
      with Cons.prems(1) p True show False by simp
    qed
    from bounded_key_validate [OF assms(3,5), of st]
    obtain e where "validate st key val = Some e" by auto
    with True \<open>v = val\<close> p assms(4) show ?thesis by simp
  next
    case False
    with Cons.prems(2) p have mem: "(key, val) \<in> set new" by simp
    have d: "distinct (map fst new)" using Cons.prems(1) by simp
    have unrec: "k \<notin> fst ` set (el_settings st)"
      using Cons.prems(3) False p by simp
    have rest: "\<forall>p \<in> set (takeWhile (\<lambda>p. fst p \<noteq> key) new). fst p \<notin> fst ` set (el_settings st)"
      using Cons.prems(3) False p by simp
    from Cons.IH [OF d mem rest] unrec p show ?thesis by simp
  qed
qed

text \<open>
  C6 (amended). For every settings dictionary that gives a 0-1-bounded setting
  (\<open>stability\<close>, \<open>similarity_boost\<close>, \<open>style\<close>) a value for which \<open>0 <= value <= 1\<close>
  does not hold, \<open>configure\<close> raises \<open>TTSEngineError\<close> and does not store that value:
  the setting keeps its prior value. Settings earlier in the dictionary's order that
  passed validation have been stored and stay stored; when no recognized key precedes the
  rejected one, as in \<open>{"stability": 1.5}\<close>, the engine is left unchanged.
\<close>

theorem configure_out_of_range_rejected:
  assumes "map fst (el_settings st) = map fst (el_settings elevenlabs_init)"
      and "distinct (map fst new_settings)"
      and "(key, val) \<in> set new_settings"
      and "key \<in> {''stability'', ''similarity_boost'', ''style''}"
      and "unit_range val \<noteq> Inr True"
  shows "fst (configure st new_settings) = Inl TTSEngineError \<and>
         map_of (el_settings (snd (configure st new_settings))) key = map_of (el_settings st) key \<and>
         ((\<forall>p \<in> set (takeWhile (\<lambda>p. fst p \<noteq> key) new_settings).
              fst p \<notin> fst ` set (el_settings st)) \<longrightarrow>
          snd (configure st new_settings) = st)"
proof -
  have "fst ` set (el_settings st) = set (map fst (el_settings elevenlabs_init))"
    using assms(1) by (metis set_map)
  with assms(4) have rec: "key \<in> fst ` set (el_settings st)"
    by (auto simp: elevenlabs_init_def)
  obtain r st' where c: "configure_items st new_settings = (r, st')"
    by (cases "configure_items st new_settings")
  from configure_items_rejects [OF assms(3,4) rec assms(5)] c
  obtain e where r: "r = Inl e" by auto
  have k: "map_of (el_settings st') key = map_of (el_settings st) key"
    using configure_items_keeps_key [OF assms(2,3,4) rec assms(5)] c by simp
  have f: "(\<forall>p \<in> set (takeWhile (\<lambda>p. fst p \<noteq> key) new_settings).
              fst p \<notin> fst ` set (el_settings st)) \<Longrightarrow> st' = st"
    using configure_items_first_recognized [OF assms(2,3,4) rec assms(5)] c by simp
  show ?thesis
    using c r k f by (simp add: configure_def)
qed

theorem configure_out_of_range_rejected_witness:
  "map fst (el_settings elevenlabs_init) = map fst (el_settings elevenlabs_init) \<and>
   distinct (map fst [(''stability'', PFloat 1.5)]) \<and>
   (''stability'', PFloat 1.5) \<in> set [(''stability'', PFloat 1.5)] \<and>
   ''stability'' \<in> {''stability'', ''similarity_boost'', ''style''} \<and>
   unit_range (PFloat 1.5) \<noteq> Inr True \<and>
   fst (configure elevenlabs_init [(''stability'', PFloat 1.5)]) = Inl TTSEngineError \<and>
   snd (configure elevenlabs_init [(''stability'', PFloat 1.5)]) = elevenlabs_init"
proof -
  have h2: "distinct (map fst [(''stability'', PFloat 1.5)])" by simp
  have h3: "(''stability'', PFloat 1.5) \<in> set [(''stability'', PFloat 1.5)]" by simp
  have h4: "''stability'' \<in> {''stability'', ''similarity_boost'', ''style''}" by simp
  have h5: "unit_range (PFloat 1.5) \<noteq> Inr True" by simp
  have h6: "\<forall>p \<in> set (takeWhile (\<lambda>p. fst p \<noteq> ''stability'') [(''stability'', PFloat 1.5)]).
              fst p \<notin> fst ` set (el_settings elevenlabs_init)" by simp
  show ?thesis
    using configure_out_of_range_rejected [OF refl h2 h3 h4 h5] h2 h3 h4 h5 h6 by blast
qed

text \<open>
  The rejection is not atomic: \<open>style\<close> precedes the rejected \<open>stability\<close> and is
  stored before the exception.
\<close>

theorem configure_out_of_range_counterexample:
  "snd (configure elevenlabs_init [(''style'', PFloat 0.3), (''stability'', PFloat 1.5)])
     \<noteq> elevenlabs_init"
  by (simp add: configure_def elevenlabs_init_def validate_def)

lemma configure_items_unrecognized:
  "\<forall>p \<in> set new. fst p \<notin> fst ` set (el_settings st) \<Longrightarrow> configure_items st new = (Inr (), st)"
  by (induction new) auto

text \<open>
  C10. On an engine whose settings have the six keys of \<open>__init__\<close>, \<open>configure\<close> with a
  dictionary whose keys are all unrecognized does not raise and leaves the engine as it
  was: no key is added and no setting changes.
\<close>

theorem configure_unrecognized_keys_dropped:
  assumes "map fst (el_settings st) = map fst (el_settings elevenlabs_init)"
      and "\<forall>p \<in> set new_settings. fst p \<notin>
             {''voice_id'', ''stability'', ''similarity_boost'', ''style'', ''use_speaker_boost'',
              ''model_id''}"
  shows "configure st new_settings = (Inr (), st)"
proof -
  have "fst ` set (el_settings st) = set (map fst (el_settings elevenlabs_init))"
    using assms(1) by (metis set_map)
  then have "\<forall>p \<in> set new_settings. fst p \<notin> fst ` set (el_settings st)"
    using assms(2) by (simp add: elevenlabs_init_def)
  then show ?thesis
    by (simp add: configure_def configure_items_unrecognized)
qed

theorem configure_unrecognized_keys_dropped_witness:
  "map fst (el_settings elevenlabs_init) = map fst (el_settings elevenlabs_init) \<and>
   ''rate'' \<notin> {''voice_id'', ''stability'', ''similarity_boost'', ''style'',
                ''use_speaker_boost'', ''model_id''} \<and>
   ''pitch'' \<notin> {''voice_id'', ''stability'', ''similarity_boost'', ''style'',
                 ''use_speaker_boost'', ''model_id''} \<and>
   configure elevenlabs_init [(''rate'', PFloat 1), (''pitch'', PInt 2)] = (Inr (), elevenlabs_init)"
proof -
  have h: "\<forall>p \<in> set [(''rate'', PFloat 1), (''pitch'', PInt 2)]. fst p \<notin>
             {''voice_id'', ''stability'', ''similarity_boost'', ''style'', ''use_speaker_boost'',
              ''model_id''}" by simp
  show ?thesis
    using configure_unrecognized_keys_dropped [OF refl h] h by simp
qed

subsection \<open>Engine registry\<close>

lemma dom_delete_eq: "fst ` set (AList.delete k al) = fst ` set al - {k}"
  by (force simp: AList.delete_eq)

lemma map_of_Some_dom: "map_of al k = Some v \<Longrightarrow> k \<in> fst ` set al"
  by (force dest: map_of_SomeD)

text \<open>The invariant holds after \<open>__init__\<close> and is kept by every operation.\<close>

lemma instances_registered_init: "instances_registered (engine_factory_init plugins)"
  by (simp add: instances_registered_def engine_factory_init_def)

lemma instances_registered_get_engine:
  "instances_registered f \<Longrightarrow> instances_registered (snd (get_engine f n))"
  by (auto simp: instances_registered_def get_engine_def construct_def dom_update
           split: option.splits sum.splits if_splits dest: map_of_Some_dom)

lemma instances_registered_register:
  "instances_registered f \<Longrightarrow> instances_registered (register_engine f n cls)"
  by (auto simp: instances_registered_def register_engine_def dom_update)

lemma instances_registered_unregister:
  "instances_registered f \<Longrightarrow> instances_registered (unregister_engine f n)"
  by (auto simp: instances_registered_def unregister_engine_def dom_delete_eq)

lemma get_engine_memoized:
  assumes "map_of (tf_engines f) n = Some inst"
  shows "get_engine f n = (Some inst, f)"
  using assms by (simp add: get_engine_def)

lemma get_engine_created:
  assumes "map_of (tf_engines f) n = None" and "map_of (tf_engine_classes f) n = Some cls"
      and "\<not> init_raises cls"
  shows "get_engine f n =
           (Some \<lparr>obj_id = tf_next_id f, obj_class = cls\<rparr>,
            f\<lparr>tf_engines := AList.update n \<lparr>obj_id = tf_next_id f, obj_class = cls\<rparr> (tf_engines f),
              tf_next_id := Suc (tf_next_id f)\<rparr>)"
  using assms by (simp add: get_engine_def construct_def)

text \<open>A memoized instance stays memoized across lookups of any name.\<close>

lemma get_engine_keeps_instances:
  "map_of (tf_engines f) n = Some inst \<Longrightarrow>
   map_of (tf_engines (snd (get_engine f m))) n = Some inst"
  by (cases "m = n")
     (auto simp: get_engine_def construct_def update_conv' split: option.splits)

text \<open>
  The instance a lookup returns is the one memoized under the name, and it stays memoized
  across every later call that does not unregister the name.
\<close>

lemma get_engine_stores:
  "fst (get_engine f n) = Some inst \<Longrightarrow> map_of (tf_engines (snd (get_engine f n))) n = Some inst"
  by (auto simp: get_engine_def construct_def update_conv' split: option.splits if_splits)

lemma run_op_keeps_instance:
  assumes "map_of (tf_engines f) n = Some inst" and "op \<noteq> UnregisterEngine n"
  shows "map_of (tf_engines (run_op op f)) n = Some inst"
proof (cases op)
  case (GetEngine m)
  then show ?thesis using assms(1) by (simp add: get_engine_keeps_instances)
next
  case (RegisterEngine m cls)
  then show ?thesis using assms(1) by (simp add: register_engine_def)
next
  case (UnregisterEngine m)
  then have "m \<noteq> n" using assms(2) by simp
  then show ?thesis using assms(1) UnregisterEngine
    by (simp add: unregister_engine_def delete_conv')
qed

lemma run_ops_keeps_instance:
  "map_of (tf_engines f) n = Some inst \<Longrightarrow> UnregisterEngine n \<notin> set ops \<Longrightarrow>
   map_of (tf_engines (run_ops ops f)) n = Some inst"
proof (induction ops arbitrary: f)
  case Nil
  then show ?case by (simp add: run_ops_def)
next
  case (Cons op ops)
  have "op \<noteq> UnregisterEngine n" using Cons.prems(2) by auto
  then have "map_of (tf_engines (run_op op f)) n = Some inst"
    using Cons.prems(1) by (rule run_op_keeps_instance [rotated])
  moreover have "UnregisterEngine n \<notin> set ops" using Cons.prems(2) by simp
  ultimately have "map_of (tf_engines (run_ops ops (run_op op f))) n = Some inst"
    by (rule Cons.IH)
  then show ?case by (simp add: run_ops_def)
qed

lemma instances_registered_run_ops:
  "instances_registered f \<Longrightarrow> instances_registered (run_ops ops f)"
proof (induction ops arbitrary: f)
  case Nil
  then show ?case by (simp add: run_ops_def)
next
  case (Cons op ops)
  have "instances_registered (run_op op f)"
    using Cons.prems
    by (cases op)
       (simp_all add: instances_registered_get_engine instances_registered_register
          instances_registered_unregister)
  then have "instances_registered (run_ops ops (run_op op f))" by (rule Cons.IH)
  then show ?case by (simp add: run_ops_def)
qed

lemma get_engine_none_iff:
  "(fst (get_engine f n) = None) =
     (map_of (tf_engines f) n = None \<and>
      (case map_of (tf_engine_classes f) n of None \<Rightarrow> True | Some cls \<Rightarrow> init_raises cls))"
  by (simp add: get_engine_def construct_def split: option.splits)

lemma get_engine_none_unchanged:
  "fst (get_engine f n) = None \<Longrightarrow> snd (get_engine f n) = f"
  by (auto simp: get_engine_def construct_def split: option.splits if_splits)

text \<open>
  C7 (amended). In the registry of \<open>dist/engines/tts_factory.py\<close>, \<open>get_engine\<close>
  returns \<open>None\<close> exactly when the name has no memoized instance and is either not
  registered or registered with a class whose constructor raises, and it then leaves the
  registry as it was; in every other case it returns an instance, and every later
  \<open>get_engine\<close> for that name, after any further calls of \<open>get_engine\<close>,
  \<open>register_engine\<close> and \<open>unregister_engine\<close> that do not unregister the name, returns
  that same instance and changes nothing. In a registry whose memoized names are all
  registered, as it is from \<open>__init__\<close> on, a name that is not registered gives \<open>None\<close>.
  The factory of \<open>engines/factory.py\<close> does not memoize: two calls for a registered type
  return two objects, and an unknown type raises \<open>ValueError\<close>.
\<close>

theorem get_engine_registry_lookup:
  "((fst (get_engine f n) = None) =
      (map_of (tf_engines f) n = None \<and>
       (case map_of (tf_engine_classes f) n of None \<Rightarrow> True | Some cls \<Rightarrow> init_raises cls))) \<and>
   (fst (get_engine f n) = Some inst \<and> UnregisterEngine n \<notin> set ops \<longrightarrow>
      get_engine (run_ops ops (snd (get_engine f n))) n =
        (Some inst, run_ops ops (snd (get_engine f n)))) \<and>
   (fst (get_engine f m) = None \<longrightarrow> snd (get_engine f m) = f) \<and>
   (instances_registered f \<and> m \<notin> fst ` set (tf_engine_classes f) \<longrightarrow>
      get_engine f m = (None, f)) \<and>
   (map_of (pf_engines p) t = Some cls' \<and> \<not> init_raises cls' \<longrightarrow>
      (\<exists>i j. fst (factory_get_engine p t) = Inr i \<and>
             fst (factory_get_engine (snd (factory_get_engine p t)) t) = Inr j \<and>
             obj_id i \<noteq> obj_id j)) \<and>
   (u \<notin> fst ` set (pf_engines p) \<longrightarrow> fst (factory_get_engine p u) = Inl ValueError)"
proof (intro conjI impI)
  show "(fst (get_engine f n) = None) =
      (map_of (tf_engines f) n = None \<and>
       (case map_of (tf_engine_classes f) n of None \<Rightarrow> True | Some cls \<Rightarrow> init_raises cls))"
    by (rule get_engine_none_iff)
next
  assume a: "fst (get_engine f n) = Some inst \<and> UnregisterEngine n \<notin> set ops"
  then have "map_of (tf_engines (snd (get_engine f n))) n = Some inst"
    by (simp add: get_engine_stores)
  then have "map_of (tf_engines (run_ops ops (snd (get_engine f n)))) n = Some inst"
    using a by (simp add: run_ops_keeps_instance)
  then show "get_engine (run_ops ops (snd (get_engine f n))) n =
        (Some inst, run_ops ops (snd (get_engine f n)))"
    by (rule get_engine_memoized)
next
  assume "fst (get_engine f m) = None"
  then show "snd (get_engine f m) = f" by (rule get_engine_none_unchanged)
next
  assume "instances_registered f \<and> m \<notin> fst ` set (tf_engine_classes f)"
  then have "m \<notin> fst ` set (tf_engines f)" "m \<notin> fst ` set (tf_engine_classes f)"
    by (auto simp: instances_registered_def)
  then have "map_of (tf_engines f) m = None" "map_of (tf_engine_classes f) m = None"
    by (simp_all add: map_of_eq_None_iff)
  then show "get_engine f m = (None, f)" by (simp add: get_engine_def)
next
  assume "map_of (pf_engines p) t = Some cls' \<and> \<not> init_raises cls'"
  then show "\<exists>i j. fst (factory_get_engine p t) = Inr i \<and>
             fst (factory_get_engine (snd (factory_get_engine p t)) t) = Inr j \<and>
             obj_id i \<noteq> obj_id j"
    by (simp add: factory_get_engine_def construct_def)
next
  assume "u \<notin> fst ` set (pf_engines p)"
  then have "map_of (pf_engines p) u = None" by (simp add: map_of_eq_None_iff)
  then show "fst (factory_get_engine p u) = Inl ValueError"
    by (simp add: factory_get_engine_def)
qed

text \<open>
  An instance: the registry of \<open>dist\<close> with a class whose constructor raises registered
  under \<open>broken\<close>. The first lookup of \<open>elevenlabs\<close> creates object 0; after a lookup of
  \<open>pyttsx3\<close>, the registration of the raising class under \<open>elevenlabs\<close> itself, the removal
  of \<open>pyttsx3\<close> and one more lookup, \<open>get_engine\<close> still returns object 0. \<open>broken\<close> gives
  \<open>None\<close> and leaves the registry as it was, and so does \<open>espeak\<close>, which is not
  registered.
\<close>

theorem get_engine_registry_lookup_witness:
  "fst (get_engine (register_engine dist_factory ''broken'' BrokenEngine) ''elevenlabs'') =
     Some \<lparr>obj_id = 0, obj_class = ElevenLabsEngine\<rparr> \<and>
   UnregisterEngine ''elevenlabs'' \<notin>
     set [GetEngine ''pyttsx3'', RegisterEngine ''elevenlabs'' BrokenEngine,
          UnregisterEngine ''pyttsx3'', GetEngine ''elevenlabs''] \<and>
   fst (get_engine
     (run_ops [GetEngine ''pyttsx3'', RegisterEngine ''elevenlabs'' BrokenEngine,
               UnregisterEngine ''pyttsx3'', GetEngine ''elevenlabs'']
        (snd (get_engine (register_engine dist_factory ''broken'' BrokenEngine) ''elevenlabs'')))
     ''elevenlabs'') = Some \<lparr>obj_id = 0, obj_class = ElevenLabsEngine\<rparr> \<and>
   fst (get_engine (register_engine dist_factory ''broken'' BrokenEngine) ''broken'') = None \<and>
   snd (get_engine (register_engine dist_factory ''broken'' BrokenEngine) ''broken'') =
     register_engine dist_factory ''broken'' BrokenEngine \<and>
   instances_registered dist_factory \<and>
   ''espeak'' \<notin> fst ` set (tf_engine_classes dist_factory) \<and>
   get_engine dist_factory ''espeak'' = (None, dist_factory) \<and>
   map_of (pf_engines plain_factory_init) ''edge-tts'' = Some EdgeTTSEngine \<and>
   \<not> init_raises EdgeTTSEngine \<and>
   (\<exists>i j. fst (factory_get_engine plain_factory_init ''edge-tts'') = Inr i \<and>
          fst (factory_get_engine (snd (factory_get_engine plain_factory_init ''edge-tts''))
                 ''edge-tts'') = Inr j \<and>
          obj_id i \<noteq> obj_id j) \<and>
   ''espeak'' \<notin> fst ` set (pf_engines plain_factory_init) \<and>
   fst (factory_get_engine plain_factory_init ''espeak'') = Inl ValueError"
proof -
  let ?f = "register_engine dist_factory ''broken'' BrokenEngine"
  let ?ops = "[GetEngine ''pyttsx3'', RegisterEngine ''elevenlabs'' BrokenEngine,
               UnregisterEngine ''pyttsx3'', GetEngine ''elevenlabs'']"
  have h1: "fst (get_engine ?f ''elevenlabs'') = Some \<lparr>obj_id = 0, obj_class = ElevenLabsEngine\<rparr>"
    by (simp add: get_engine_def register_engine_def dist_factory_def engine_factory_init_def
          construct_def BrokenEngine_def ElevenLabsEngine_def)
  have h2: "UnregisterEngine ''elevenlabs'' \<notin> set ?ops" by simp
  have h3: "fst (get_engine ?f ''broken'') = None"
    by (simp add: get_engine_def register_engine_def dist_factory_def engine_factory_init_def
          construct_def BrokenEngine_def)
  have h4: "instances_registered dist_factory"
    unfolding dist_factory_def by (rule instances_registered_init)
  have h5: "''espeak'' \<notin> fst ` set (tf_engine_classes dist_factory)"
    by (simp add: dist_factory_def engine_factory_init_def)
  have h6: "map_of (pf_engines plain_factory_init) ''edge-tts'' = Some EdgeTTSEngine"
    by (simp add: plain_factory_init_def)
  have h7: "\<not> init_raises EdgeTTSEngine" by (simp add: EdgeTTSEngine_def)
  have h8: "''espeak'' \<notin> fst ` set (pf_engines plain_factory_init)"
    by (simp add: plain_factory_init_def)
  have a: "get_engine (run_ops ?ops (snd (get_engine ?f ''elevenlabs''))) ''elevenlabs'' =
             (Some \<lparr>obj_id = 0, obj_class = ElevenLabsEngine\<rparr>,
              run_ops ?ops (snd (get_engine ?f ''elevenlabs'')))"
    and b: "snd (get_engine ?f ''broken'') = ?f"
    and c: "\<exists>i j. fst (factory_get_engine plain_factory_init ''edge-tts'') = Inr i \<and>
          fst (factory_get_engine (snd (factory_get_engine plain_factory_init ''edge-tts''))
                 ''edge-tts'') = Inr j \<and> obj_id i \<noteq> obj_id j"
    and d: "fst (factory_get_engine plain_factory_init ''espeak'') = Inl ValueError"
    using get_engine_registry_lookup [of ?f "''elevenlabs''"
            "\<lparr>obj_id = 0, obj_class = ElevenLabsEngine\<rparr>" ?ops "''broken''"
            plain_factory_init "''edge-tts''" EdgeTTSEngine "''espeak''"]
          h1 h2 h3 h6 h7 h8
    by blast+
  have e: "get_engine dist_factory ''espeak'' = (None, dist_factory)"
    using get_engine_registry_lookup [of dist_factory "''elevenlabs''" "\<lparr>obj_id = 0, obj_class = ElevenLabsEngine\<rparr>" "[]" "''espeak''"]
          h4 h5
    by blast
  show ?thesis
    using h1 h2 h3 h4 h5 h6 h7 h8 a b c d e by simp
qed

text \<open>
  The claim fails for \<open>engines/factory.py\<close> (a new object per call, \<open>ValueError\<close>
  for an unknown type) and, in \<open>dist\<close>, for a registered class whose constructor
  raises (\<open>None\<close>).
\<close>

theorem get_engine_registry_lookup_counterexample:
  "fst (factory_get_engine plain_factory_init ''elevenlabs'') \<noteq>
     fst (factory_get_engine (snd (factory_get_engine plain_factory_init ''elevenlabs''))
            ''elevenlabs'') \<and>
   fst (factory_get_engine plain_factory_init ''espeak'') = Inl ValueError \<and>
   fst (get_engine (register_engine dist_factory ''broken'' BrokenEngine) ''broken'') = None"
  by (simp add: factory_get_engine_def plain_factory_init_def construct_def ElevenLabsEngine_def
        get_engine_def register_engine_def dist_factory_def engine_factory_init_def
        BrokenEngine_def)

subsection \<open>Effect chain\<close>

lemma then_do_Inr [simp]: "then_do (Inr x) f = f x"
  by (simp add: then_do_def)

lemma then_do_Inl [simp]: "then_do (Inl e) f = Inl e"
  by (simp add: then_do_def)

lemma then_do_return [simp]: "then_do r Inr = r"
  by (cases r) simp_all

lemma stage_skipped: "\<not> truthy (dict_get effects name) \<Longrightarrow> stage effects name f audio = Inr audio"
  by (simp add: stage_def)

lemma stage_applied:
  "map_of effects name = Some p \<Longrightarrow> truthy p \<Longrightarrow> stage effects name f audio = f audio p"
  by (simp add: stage_def dict_get_def)

text \<open>
  C8 (amended). For every signal and every effects dictionary, in whatever order its keys
  were inserted, whose \<open>equalization\<close> and \<open>compression\<close> entries are truthy (non-empty)
  and whose other six stage entries are absent or falsy, \<open>_apply_effects\<close> returns what
  applying \<open>_apply_eq\<close> with the equalization entry and then \<open>_apply_compression\<close>
  with the compression entry returns, exceptions included.
\<close>

theorem apply_effects_eq_then_compression:
  assumes "map_of effects ''equalization'' = Some eq_params" and "truthy eq_params"
      and "map_of effects ''compression'' = Some comp_params" and "truthy comp_params"
      and "\<forall>k \<in> {''noise_reduction'', ''reverb'', ''echo'', ''pitch_shift'', ''time_stretch'',
                   ''stereo_width''}. \<not> truthy (dict_get effects k)"
  shows "apply_effects lib ap audio effects =
           then_do (apply_eq lib ap audio eq_params) (\<lambda>equalized.
             apply_compression ap equalized comp_params)"
proof -
  have n: "\<not> truthy (dict_get effects ''noise_reduction'')" "\<not> truthy (dict_get effects ''reverb'')"
    "\<not> truthy (dict_get effects ''echo'')" "\<not> truthy (dict_get effects ''pitch_shift'')"
    "\<not> truthy (dict_get effects ''time_stretch'')" "\<not> truthy (dict_get effects ''stereo_width'')"
    using assms(5) by simp_all
  have s1: "stage effects ''noise_reduction'' f a = Inr a" for f a by (rule stage_skipped) (rule n)
  have s2: "stage effects ''reverb'' f a = Inr a" for f a by (rule stage_skipped) (rule n)
  have s3: "stage effects ''echo'' f a = Inr a" for f a by (rule stage_skipped) (rule n)
  have s4: "stage effects ''pitch_shift'' f a = Inr a" for f a by (rule stage_skipped) (rule n)
  have s5: "stage effects ''time_stretch'' f a = Inr a" for f a by (rule stage_skipped) (rule n)
  have s6: "stage effects ''stereo_width'' f a = Inr a" for f a by (rule stage_skipped) (rule n)
  have e: "stage effects ''equalization'' f a = f a eq_params" for f a
    using assms(1,2) by (rule stage_applied)
  have c: "stage effects ''compression'' f a = f a comp_params" for f a
    using assms(3,4) by (rule stage_applied)
  show ?thesis
    unfolding apply_effects_def s1 s2 s3 s4 s5 s6 e c by simp
qed

theorem apply_effects_eq_then_compression_witness:
  "map_of reversed_effects ''equalization'' = Some (PDict [(''bands'', PList [])]) \<and>
   truthy (PDict [(''bands'', PList [])]) \<and>
   map_of reversed_effects ''compression'' = Some (PDict [(''ratio'', PFloat 4)]) \<and>
   truthy (PDict [(''ratio'', PFloat 4)]) \<and>
   \<not> truthy (dict_get reversed_effects ''noise_reduction'') \<and>
   \<not> truthy (dict_get reversed_effects ''reverb'') \<and>
   \<not> truthy (dict_get reversed_effects ''echo'') \<and>
   \<not> truthy (dict_get reversed_effects ''pitch_shift'') \<and>
   \<not> truthy (dict_get reversed_effects ''time_stretch'') \<and>
   \<not> truthy (dict_get reversed_effects ''stereo_width'') \<and>
   apply_effects example_dsp example_processor [1, - 1 / 2] reversed_effects =
     then_do (apply_eq example_dsp example_processor [1, - 1 / 2] (PDict [(''bands'', PList [])]))
       (\<lambda>equalized. apply_compression example_processor equalized (PDict [(''ratio'', PFloat 4)]))"
proof -
  have h1: "map_of reversed_effects ''equalization'' = Some (PDict [(''bands'', PList [])])"
    by (simp add: reversed_effects_def)
  have h2: "truthy (PDict [(''bands'', PList [])])" by simp
  have h3: "map_of reversed_effects ''compression'' = Some (PDict [(''ratio'', PFloat 4)])"
    by (simp add: reversed_effects_def)
  have h4: "truthy (PDict [(''ratio'', PFloat 4)])" by simp
  have h5: "\<forall>k \<in> {''noise_reduction'', ''reverb'', ''echo'', ''pitch_shift'', ''time_stretch'',
                   ''stereo_width''}. \<not> truthy (dict_get reversed_effects k)"
    by (simp add: reversed_effects_def dict_get_def)
  show ?thesis
    using apply_effects_eq_then_compression [OF h1 h2 h3 h4 h5] h1 h2 h3 h4 h5 by simp
qed

text \<open>
  The chain reads the dictionary by key only, so two dictionaries that are equal as maps
  give the same result.
\<close>

lemma apply_effects_reads_by_key:
  "map_of effects = map_of effects' \<Longrightarrow>
   apply_effects lib ap audio effects = apply_effects lib ap audio effects'"
  by (simp add: apply_effects_def stage_def dict_get_def)

lemma smooth_single_sample:
  "release \<noteq> 0 \<Longrightarrow> smooth_gain_reduction [g] attack release = Inr [g]"
  by (simp add: smooth_gain_reduction_def)

lemma py_int_release: "py_int (1 / 4 * 44100) = 11025"
  by (simp add: py_int_def)

lemma apply_compression_defaults_unit_sample:
  "\<exists>y. apply_compression example_processor [1] (PDict []) = Inr [y] \<and> y < 1"
proof -
  have pos: "0 < log 10 (10000000001 / 10000000000 :: real)" by simp
  then have thr: "- 1 < log 10 (10000000001 / 10000000000 :: real)" by linarith
  have sm: "smooth_gain_reduction [g] attack 11025 = Inr [g]" for g attack
    by (rule smooth_single_sample) simp
  have lt: "10 powr - ((60 * log 10 (10000000001 / 10000000000) + 60) / 80) < (1::real)"
  proof (rule powr_less_one)
    show "(1::real) < 10" by simp
    show "- ((60 * log 10 (10000000001 / 10000000000) + 60) / 80) < (0::real)"
      using thr by simp
  qed
  have "apply_compression example_processor [1] (PDict []) =
          Inr [10 powr - ((60 * log 10 (10000000001 / 10000000000) + 60) / 80)]"
    using py_int_release thr
    by (simp add: apply_compression_def dict_get_default_def number_of_def example_processor_def
          Let_def sm)
  with lt show ?thesis by blast
qed

text \<open>
  An entry that is present but falsy is skipped: with \<open>compression\<close> the empty
  dictionary the chain stops after the equalizer, while \<open>_apply_compression\<close> applied by
  hand with that entry compresses with its default parameters.
\<close>

theorem apply_effects_eq_then_compression_counterexample:
  "apply_effects example_dsp example_processor [1] empty_compression_effects \<noteq>
     then_do (apply_eq example_dsp example_processor [1] (dict_get empty_compression_effects ''equalization''))
       (\<lambda>equalized. apply_compression example_processor equalized
                       (dict_get empty_compression_effects ''compression''))"
proof -
  have eq: "apply_eq example_dsp example_processor [1] (PDict [(''bands'', PList [])]) = Inr [1]"
    by (simp add: apply_eq_def dict_get_default_def)
  have lhs: "apply_effects example_dsp example_processor [1] empty_compression_effects = Inr [1]"
    by (simp add: apply_effects_def stage_def dict_get_def empty_compression_effects_def eq)
  obtain y where y: "apply_compression example_processor [1] (PDict []) = Inr [y]" "y < 1"
    using apply_compression_defaults_unit_sample by blast
  have rhs: "then_do (apply_eq example_dsp example_processor [1] (dict_get empty_compression_effects ''equalization''))
       (\<lambda>equalized. apply_compression example_processor equalized
                       (dict_get empty_compression_effects ''compression'')) = Inr [y]"
    by (simp add: dict_get_def empty_compression_effects_def eq y)
  show ?thesis
    unfolding lhs rhs using y(2) by simp
qed

subsection \<open>Harmonic enhancement\<close>

lemma array_truth_ambiguous: "2 \<le> length bs \<Longrightarrow> array_truth bs = Inl ValueError"
  by (cases bs; cases "tl bs") (auto simp: array_truth_def)

lemma is_peak_ambiguous:
  assumes "2 \<le> length (magnitude ! i)" and "2 \<le> length (magnitude ! (i - 1))"
  shows "is_peak magnitude threshold i = Inl ValueError"
proof -
  have "2 \<le> length (row_greater (magnitude ! i) (magnitude ! (i - 1)))"
    using assms by (simp add: row_greater_def)
  then show ?thesis
    by (simp add: is_peak_def array_truth_ambiguous)
qed

text \<open>
  C9. The claim is that the stage scales the magnitude of the peak bins and returns. On
  every spectrogram with at least three frequency bins and at least two frames, the
  first row comparison of \<open>_find_harmonic_peaks\<close> has more than one element, its truth
  value is ambiguous, and \<open>_enhance_harmonics\<close> raises \<open>ValueError\<close>.
\<close>

theorem enhance_harmonics_multi_frame_raises:
  assumes "3 \<le> length D" and "\<forall>row \<in> set D. length row = n_frames" and "2 \<le> n_frames"
  shows "enhance_harmonics D params = Inl ValueError"
proof -
  have rows: "\<And>i. i < length D \<Longrightarrow> length (map (map cmod) D ! i) = n_frames"
    using assms(2) by simp
  have r1: "2 \<le> length (map (map cmod) D ! 1)"
    using rows [of 1] assms(1,3) by simp
  have "0 < length D" using assms(1) by linarith
  from rows [OF this] have r0: "2 \<le> length (map (map cmod) D ! (1 - 1))"
    using assms(3) by simp
  have idx: "[1 ..< length (map (map cmod) D) - 1] = 1 # [Suc 1 ..< length D - 1]"
    using assms(1) by (simp add: upt_conv_Cons)
  have pk: "is_peak (map (map cmod) D) thr (Suc 0) = Inl ValueError" for thr
    using is_peak_ambiguous [OF r1 r0] by simp
  have "find_harmonic_peaks (map (map cmod) D) thr = Inl ValueError" for thr
    unfolding find_harmonic_peaks_def idx
    by (simp add: pk)
  then show ?thesis
    by (simp add: enhance_harmonics_def Let_def)
qed

theorem enhance_harmonics_multi_frame_raises_witness:
  "3 \<le> length [[1, 1], [2, 2], [1, 1 :: complex]] \<and>
   length [1, 1 :: complex] = 2 \<and> length [2, 2 :: complex] = 2 \<and> (2::nat) \<le> 2 \<and>
   enhance_harmonics [[1, 1], [2, 2], [1, 1]] [] = Inl ValueError"
proof -
  have h1: "3 \<le> length [[1, 1], [2, 2], [1, 1 :: complex]]" by simp
  have h2: "\<forall>row \<in> set [[1, 1], [2, 2], [1, 1 :: complex]]. length row = 2" by simp
  show ?thesis
    using enhance_harmonics_multi_frame_raises [OF h1 h2, of "[]"] by simp
qed

text \<open>
  On a spectrogram with a single frame, and numeric parameters, the stage returns, and
  does what its description says: each bin between the first and the last that is a
  peak is multiplied by the enhancement factor, every other bin is returned as it was.
\<close>

lemma single_elem: "length xs = 1 \<Longrightarrow> xs = [xs ! 0]"
  by (cases xs) auto

lemma is_peak_single_frame:
  assumes "\<forall>row \<in> set magnitude. length row = 1" and "as_number threshold = Some t"
      and "1 \<le> i" and "i + 1 < length magnitude"
  shows "is_peak magnitude threshold i = Inr (peak_bin magnitude t i)"
proof -
  have len: "length (magnitude ! j) = 1" if "j < length magnitude" for j
    using assms(1) that by simp
  have a: "magnitude ! i = [magnitude ! i ! 0]"
    using len [of i] assms(4) by (intro single_elem) simp
  have b: "magnitude ! (i - 1) = [magnitude ! (i - 1) ! 0]"
    using len [of "i - 1"] assms(4) by (intro single_elem) simp
  have c: "magnitude ! (i + 1) = [magnitude ! (i + 1) ! 0]"
    using len [of "i + 1"] assms(4) by (intro single_elem) simp
  have g1: "row_greater (magnitude ! i) (magnitude ! (i - 1)) = [magnitude ! (i - 1) ! 0 < magnitude ! i ! 0]"
    by (subst a, subst b) (simp add: row_greater_def)
  have g2: "row_greater (magnitude ! i) (magnitude ! (i + 1)) = [magnitude ! (i + 1) ! 0 < magnitude ! i ! 0]"
    by (subst a, subst c) (simp add: row_greater_def)
  have g3: "row_above (magnitude ! i) threshold = Inr [t < magnitude ! i ! 0]"
    by (subst a) (simp add: row_above_def assms(2))
  show ?thesis
    unfolding is_peak_def g1 g2 g3
    by (simp add: array_truth_def peak_bin_def split: bool.splits)
qed

lemma peaks_loop_single_frame:
  assumes "\<forall>row \<in> set magnitude. length row = 1" and "as_number threshold = Some t"
      and "\<forall>i \<in> set idx. 1 \<le> i \<and> i + 1 < length magnitude"
  shows "peaks_loop magnitude threshold idx peaks = Inr (peaks @ filter (peak_bin magnitude t) idx)"
  using assms(3)
proof (induction idx arbitrary: peaks)
  case Nil
  then show ?case by simp
next
  case (Cons i idx)
  have "is_peak magnitude threshold i = Inr (peak_bin magnitude t i)"
    using Cons.prems by (intro is_peak_single_frame [OF assms(1,2)]) simp_all
  then show ?case
    using Cons.IH Cons.prems by simp
qed

lemma find_harmonic_peaks_single_frame:
  assumes "\<forall>row \<in> set magnitude. length row = 1" and "as_number threshold = Some t"
  shows "find_harmonic_peaks magnitude threshold =
           Inr (filter (peak_bin magnitude t) [1 ..< length magnitude - 1])"
  unfolding find_harmonic_peaks_def
  by (subst peaks_loop_single_frame [OF assms]) auto

lemma enhance_rows_distinct:
  assumes "as_number enhancement = Some c" and "distinct ps"
  shows "enhance_rows magnitude enhancement ps =
           Inr (map (\<lambda>i. if i \<in> set ps then map (\<lambda>x. x * c) (magnitude ! i) else magnitude ! i)
                  [0 ..< length magnitude])"
  using assms(2)
proof (induction ps arbitrary: magnitude)
  case Nil
  then show ?case by (simp add: map_nth)
next
  case (Cons p ps)
  have sc: "scale_row (magnitude ! p) enhancement = Inr (map (\<lambda>x. x * c) (magnitude ! p))"
    by (simp add: scale_row_def assms(1))
  have d: "distinct ps" and np: "p \<notin> set ps" using Cons.prems by simp_all
  have "enhance_rows magnitude enhancement (p # ps) =
        enhance_rows (magnitude[p := map (\<lambda>x. x * c) (magnitude ! p)]) enhancement ps"
    by (simp add: sc)
  also have "\<dots> = Inr (map (\<lambda>i. if i \<in> set ps
                                  then map (\<lambda>x. x * c) (magnitude[p := map (\<lambda>x. x * c) (magnitude ! p)] ! i)
                                  else magnitude[p := map (\<lambda>x. x * c) (magnitude ! p)] ! i)
                  [0 ..< length magnitude])"
    using Cons.IH [OF d] by simp
  also have "\<dots> = Inr (map (\<lambda>i. if i \<in> set (p # ps) then map (\<lambda>x. x * c) (magnitude ! i)
                                   else magnitude ! i)
                  [0 ..< length magnitude])"
  proof -
    have ne: "i \<noteq> p" if "i \<in> set ps" for i using that np by auto
    show ?thesis
      by (auto simp: nth_list_update dest: ne)
  qed
  finally show ?case .
qed

lemma recombine_unscaled: "of_real (cmod z) * cis (Arg z) = z"
  using rcis_cmod_Arg [of z] by (simp add: rcis_def)

lemma recombine_scaled: "of_real (cmod z * c) * cis (Arg z) = of_real c * z"
proof -
  have "of_real (cmod z * c) * cis (Arg z) = of_real c * (of_real (cmod z) * cis (Arg z))"
    by simp
  then show ?thesis by (simp only: recombine_unscaled)
qed

lemma enhance_harmonics_single_frame:
  assumes "\<forall>row \<in> set D. length row = 1"
      and "as_number (dict_get_default params ''enhancement'' (PFloat 1.5)) = Some c"
      and "as_number (dict_get_default params ''threshold'' (PFloat 0.1)) = Some t"
  shows "enhance_harmonics D params =
           Inr (map (\<lambda>i. if 1 \<le> i \<and> i + 1 < length D \<and> peak_bin (map (map cmod) D) t i
                          then map (\<lambda>z. of_real c * z) (D ! i) else D ! i)
                  [0 ..< length D])"
proof -
  define M where "M = map (map cmod) D"
  define peaks where "peaks = filter (peak_bin M t) [1 ..< length M - 1]"
  have lenM: "length M = length D" by (simp add: M_def)
  have rowsM: "\<forall>row \<in> set M. length row = 1" using assms(1) by (auto simp: M_def)
  have f: "find_harmonic_peaks M (dict_get_default params ''threshold'' (PFloat 0.1)) = Inr peaks"
    unfolding peaks_def by (rule find_harmonic_peaks_single_frame [OF rowsM assms(3)])
  have dp: "distinct peaks" by (simp add: peaks_def)
  have e: "enhance_rows M (dict_get_default params ''enhancement'' (PFloat 1.5)) peaks =
             Inr (map (\<lambda>i. if i \<in> set peaks then map (\<lambda>x. x * c) (M ! i) else M ! i)
                    [0 ..< length M])"
    by (rule enhance_rows_distinct [OF assms(2) dp])
  have mem: "i \<in> set peaks \<longleftrightarrow> 1 \<le> i \<and> i + 1 < length D \<and> peak_bin M t i" for i
    by (auto simp: peaks_def lenM)
  have row: "D ! i = [D ! i ! 0]" if "i < length D" for i
    using assms(1) that by (intro single_elem) simp
  have "map2 (map2 (\<lambda>m p. of_real m * cis p))
          (map (\<lambda>i. if i \<in> set peaks then map (\<lambda>x. x * c) (M ! i) else M ! i) [0 ..< length M])
          (map (map Arg) D) =
        map (\<lambda>i. if 1 \<le> i \<and> i + 1 < length D \<and> peak_bin M t i
                  then map (\<lambda>z. of_real c * z) (D ! i) else D ! i) [0 ..< length D]"
  proof (rule nth_equalityI)
    show "length (map2 (map2 (\<lambda>m p. of_real m * cis p))
          (map (\<lambda>i. if i \<in> set peaks then map (\<lambda>x. x * c) (M ! i) else M ! i) [0 ..< length M])
          (map (map Arg) D)) =
        length (map (\<lambda>i. if 1 \<le> i \<and> i + 1 < length D \<and> peak_bin M t i
                  then map (\<lambda>z. of_real c * z) (D ! i) else D ! i) [0 ..< length D])"
      by (simp add: lenM)
  next
    fix i
    assume "i < length (map2 (map2 (\<lambda>m p. of_real m * cis p))
          (map (\<lambda>i. if i \<in> set peaks then map (\<lambda>x. x * c) (M ! i) else M ! i) [0 ..< length M])
          (map (map Arg) D))"
    then have i: "i < length D" by (simp add: lenM)
    define z where "z = D ! i ! 0"
    have Di: "D ! i = [z]" using row [OF i] by (simp add: z_def)
    have Mi: "M ! i = [cmod z]" using i Di by (simp add: M_def)
    have lhs: "map2 (map2 (\<lambda>m p. of_real m * cis p))
          (map (\<lambda>i. if i \<in> set peaks then map (\<lambda>x. x * c) (M ! i) else M ! i) [0 ..< length M])
          (map (map Arg) D) ! i =
          (if i \<in> set peaks then [of_real c * z] else [z])"
      using i by (simp add: lenM Mi Di recombine_unscaled)
    have rhs: "map (\<lambda>i. if 1 \<le> i \<and> i + 1 < length D \<and> peak_bin M t i
                  then map (\<lambda>z. of_real c * z) (D ! i) else D ! i) [0 ..< length D] ! i =
          (if i \<in> set peaks then [of_real c * z] else [z])"
      using i mem [of i] by (simp add: Di)
    show "map2 (map2 (\<lambda>m p. of_real m * cis p))
          (map (\<lambda>i. if i \<in> set peaks then map (\<lambda>x. x * c) (M ! i) else M ! i) [0 ..< length M])
          (map (map Arg) D) ! i =
        map (\<lambda>i. if 1 \<le> i \<and> i + 1 < length D \<and> peak_bin M t i
                  then map (\<lambda>z. of_real c * z) (D ! i) else D ! i) [0 ..< length D] ! i"
      unfolding lhs rhs ..
  qed
  then show ?thesis
    using f e by (simp add: enhance_harmonics_def Let_def M_def [symmetric])
qed

end
